theory Spec2Isabelle
  imports Main
begin

section \<open>Values, errors and strings\<close>

text \<open>
  The values that travel through \<^verbatim>\<open>template.py\<close> are the ones a YAML deploy config
  and a variable file produce: \<^verbatim>\<open>None\<close>, booleans, integers, floats, strings, lists and
  dicts. Strings are sequences of 8-bit characters (code points 0 to 255), dicts are
  association lists in insertion order with keys that are strings. Tuples, which
  \<^verbatim>\<open>render_template\<close> treats like lists, do not occur in such data and are left out.
  Python 3 semantics is modelled.

  Floating point numbers are not interpreted: the type of floats is the parameter
  \<open>'f\<close>, and the three operations of the interpreter that the code reaches on a float
  are collected in a record that every function takes as its first argument.
\<close>

datatype 'f pyval =
    PNone
  | PBool bool
  | PInt int
  | PFloat 'f
  | PStr string
  | PList "'f pyval list"
  | PDict "(string \<times> 'f pyval) list"

record 'f float_ops =
  float_parse :: "string \<Rightarrow> 'f option"   \<comment> \<open>\<^verbatim>\<open>float(s)\<close>; \<open>None\<close> is \<^verbatim>\<open>ValueError\<close>\<close>
  float_str :: "'f \<Rightarrow> string"              \<comment> \<open>\<^verbatim>\<open>str(x)\<close>\<close>
  float_truthy :: "'f \<Rightarrow> bool"             \<comment> \<open>\<^verbatim>\<open>bool(x)\<close>\<close>

text \<open>
  Exceptions. \<open>RecursionError\<close> is what the interpreter raises when the call stack
  is exhausted, \<open>TypeError\<close> what it raises when a call binds a parameter twice.
  \<open>NotModelled\<close> is not an exception of the program: it marks an input on which
  this development makes no statement, because it leaves the fragment of the template
  language interpreted here or because the versions of the interpreter and of the
  library that run the program differ on it.
\<close>

datatype pyerror =
    ValueError
  | TypeError
  | RecursionError
  | TemplateSyntaxError
  | NotModelled

definition OMIT_TOKEN :: string where
  "OMIT_TOKEN = ''__OMIT__TOKEN__''"

subsection \<open>Characters\<close>

definition NL :: char where
  "NL = CHR 0x0A"

definition is_lower :: "char \<Rightarrow> bool" where
  \<comment> \<open>the character class \<^verbatim>\<open>[a-z]\<close>\<close>
  "is_lower c \<longleftrightarrow> c \<in> set ''abcdefghijklmnopqrstuvwxyz''"

definition is_digit :: "char \<Rightarrow> bool" where
  "is_digit c \<longleftrightarrow> c \<in> set ''0123456789''"

definition digit_val :: "char \<Rightarrow> nat" where
  "digit_val c = of_char c - 48"

definition digit_char :: "nat \<Rightarrow> char" where
  "digit_char d = ''0123456789'' ! d"

definition is_space :: "char \<Rightarrow> bool" where
  \<comment> \<open>\<^verbatim>\<open>str.isspace\<close> on code points below 256; the class \<^verbatim>\<open>\s\<close> of a pattern\<close>
  "is_space c \<longleftrightarrow>
     c \<in> {CHR 0x09, CHR 0x0A, CHR 0x0B, CHR 0x0C, CHR 0x0D,
          CHR 0x1C, CHR 0x1D, CHR 0x1E, CHR 0x1F, CHR 0x20, CHR 0x85, CHR 0xA0}"

definition is_int_space :: "char \<Rightarrow> bool" where
  \<comment> \<open>what \<^verbatim>\<open>int(s)\<close> strips: the white space of ASCII, and the spaces above ASCII,
      which it rewrites to blanks first; the separators \<^verbatim>\<open>\x1c\<close> to \<^verbatim>\<open>\x1f\<close> are not among them\<close>
  "is_int_space c \<longleftrightarrow>
     c \<in> {CHR 0x09, CHR 0x0A, CHR 0x0B, CHR 0x0C, CHR 0x0D, CHR 0x20, CHR 0x85, CHR 0xA0}"

definition lower_char :: "char \<Rightarrow> char" where
  \<comment> \<open>\<^verbatim>\<open>str.lower\<close> on one code point below 256\<close>
  "lower_char c =
     (let n = (of_char c :: nat)
      in if (65 \<le> n \<and> n \<le> 90) \<or> (192 \<le> n \<and> n \<le> 222 \<and> n \<noteq> 215)
         then char_of (n + 32) else c)"

definition lower :: "string \<Rightarrow> string" where
  "lower s = map lower_char s"

subsection \<open>\<^verbatim>\<open>str\<close> and \<^verbatim>\<open>int\<close>\<close>

fun show_nat :: "nat \<Rightarrow> string" where
  "show_nat n =
     (if n < 10 then [digit_char n] else show_nat (n div 10) @ [digit_char (n mod 10)])"

declare show_nat.simps [simp del]

definition show_int :: "int \<Rightarrow> string" where
  "show_int i = (if i < 0 then CHR ''-'' # show_nat (nat (- i)) else show_nat (nat i))"

text \<open>
  Recent interpreters refuse to convert between text and an integer of more than 4300
  digits, older ones convert: no statement is made beyond that length.
\<close>

definition max_str_digits :: nat where
  "max_str_digits = 4300"

text \<open>
  \<^verbatim>\<open>str(arg)\<close>; \<open>None\<close> where it is not modelled: the \<^verbatim>\<open>repr\<close> of a list or dict, and
  an integer beyond the digit limit. (The text of Jinja's \<^verbatim>\<open>Undefined\<close> is in \<open>jstr\<close>
  below.)
\<close>

fun py_str :: "'f float_ops \<Rightarrow> 'f pyval \<Rightarrow> string option" where
  "py_str fl PNone = Some ''None''"
| "py_str fl (PBool b) = Some (if b then ''True'' else ''False'')"
| "py_str fl (PInt i) =
     (if length (show_nat (nat \<bar>i\<bar>)) \<le> max_str_digits then Some (show_int i) else None)"
| "py_str fl (PFloat x) = Some (float_str fl x)"
| "py_str fl (PStr s) = Some s"
| "py_str fl (PList xs) = None"
| "py_str fl (PDict kvs) = None"

definition strip :: "string \<Rightarrow> string" where
  \<comment> \<open>the stripping of white space that \<^verbatim>\<open>int(s)\<close> does at both ends\<close>
  "strip s = rev (dropWhile is_int_space (rev (dropWhile is_int_space s)))"

text \<open>
  \<^verbatim>\<open>int(s)\<close> strips white space, reads an optional sign and then the digits: a digit first,
  then digits, each optionally preceded by one underscore.
\<close>

fun digits_val :: "nat \<Rightarrow> string \<Rightarrow> nat option" where
  "digits_val acc [] = Some acc"
| "digits_val acc (c # cs) =
     (if is_digit c then digits_val (10 * acc + digit_val c) cs
      else if c = CHR ''_'' then
        (case cs of
           [] \<Rightarrow> None
         | d # ds \<Rightarrow> if is_digit d then digits_val (10 * acc + digit_val d) ds else None)
      else None)"

definition parse_nat :: "string \<Rightarrow> nat option" where
  "parse_nat s =
     (case s of
        [] \<Rightarrow> None
      | c # cs \<Rightarrow> if is_digit c then digits_val (digit_val c) cs else None)"

definition parse_int :: "string \<Rightarrow> int option" where
  \<comment> \<open>the integer that a stripped text denotes; \<open>None\<close> when it is no literal\<close>
  "parse_int t =
     (case t of
        [] \<Rightarrow> None
      | c # cs \<Rightarrow>
          if c = CHR ''-'' then map_option (\<lambda>n. - int n) (parse_nat cs)
          else if c = CHR ''+'' then map_option int (parse_nat cs)
          else map_option int (parse_nat (c # cs)))"

definition py_int :: "string \<Rightarrow> pyerror + int" where
  \<comment> \<open>\<^verbatim>\<open>int(s)\<close>\<close>
  "py_int s =
     (if length (filter is_digit (strip s)) > max_str_digits then Inl NotModelled
      else (case parse_int (strip s) of
              None \<Rightarrow> Inl ValueError
            | Some i \<Rightarrow> Inr i))"

section \<open>Type markers: \<^verbatim>\<open>filter_output_*\<close> and \<^verbatim>\<open>Template.type_fixup\<close>\<close>

text \<open>
  The filters wrap \<^verbatim>\<open>str(arg)\<close> in a header and a footer. Since \<^verbatim>\<open>str\<close> is modelled for
  some values only, the functions below take the text \<open>s = str(arg)\<close>; their caller
  \<open>apply_filter\<close> computes it from the value of the template expression (an undefined
  variable has the text \<^verbatim>\<open>''\<close>).
\<close>

definition filter_output_int :: "string \<Rightarrow> string" where
  "filter_output_int s = ''__int__'' @ s @ ''__int__''"

definition filter_output_float :: "string \<Rightarrow> string" where
  "filter_output_float s = ''__float__'' @ s @ ''__float__''"

definition filter_output_bool :: "string \<Rightarrow> string" where
  "filter_output_bool s = ''__bool__'' @ s @ ''__bool__''"

text \<open>
  \<^verbatim>\<open>re.match(r'^__(?P<type>[a-z]+)__(.*)__(?P=type)__$', value)\<close>, returning groups 1 and 2.
  The type is the longest run of lower-case letters after the leading \<^verbatim>\<open>__\<close> and must be
  followed by \<^verbatim>\<open>__\<close>; \<^verbatim>\<open>.\<close> matches every character but the newline; \<^verbatim>\<open>$\<close> matches at the
  end of the string and also just before a newline that ends the string.
\<close>

definition strip_suffix :: "string \<Rightarrow> string \<Rightarrow> string option" where
  "strip_suffix suf s =
     (if length suf \<le> length s \<and> drop (length s - length suf) s = suf
      then Some (take (length s - length suf) s) else None)"

definition marker_match :: "string \<Rightarrow> (string \<times> string) option" where
  "marker_match v =
     (case v of
        a # b # rest \<Rightarrow>
          if a = CHR ''_'' \<and> b = CHR ''_'' then
            (let ty = takeWhile is_lower rest; after = dropWhile is_lower rest
             in if ty = [] then None
                else (case after of
                        c # d # body \<Rightarrow>
                          if c = CHR ''_'' \<and> d = CHR ''_'' then
                            (let body' = (if body \<noteq> [] \<and> last body = NL then butlast body else body)
                             in case strip_suffix (''__'' @ ty @ ''__'') body' of
                                  None \<Rightarrow> None
                                | Some payload \<Rightarrow>
                                    if NL \<in> set payload then None else Some (ty, payload))
                          else None
                      | _ \<Rightarrow> None))
          else None
      | _ \<Rightarrow> None)"

fun type_fixup :: "'f float_ops \<Rightarrow> 'f pyval \<Rightarrow> pyerror + 'f pyval" where
  "type_fixup fl (PStr value) =
     (case marker_match value of
        None \<Rightarrow> Inr (PStr value)
      | Some (value_type, payload) \<Rightarrow>
          if value_type = ''int'' then
            (case py_int payload of Inl e \<Rightarrow> Inl e | Inr i \<Rightarrow> Inr (PInt i))
          else if value_type = ''float'' then
            (case float_parse fl payload of None \<Rightarrow> Inl ValueError | Some x \<Rightarrow> Inr (PFloat x))
          else if value_type = ''bool'' then
            (if lower payload = ''true'' then Inr (PBool True) else Inr (PBool False))
          else Inr (PStr value))"
| "type_fixup fl v = Inr v"

section \<open>The template engine: a fragment of Jinja2\<close>

text \<open>
  \<^verbatim>\<open>Template.__init__\<close> builds \<^verbatim>\<open>jinja2.Environment(finalize=self.finalize)\<close> and adds
  \<^verbatim>\<open>FILTERS\<close> and \<^verbatim>\<open>GLOBALS\<close>; every other setting of the environment is Jinja's default:
  delimiters \<^verbatim>\<open>{{ }}\<close>, \<^verbatim>\<open>{% %}\<close>, \<^verbatim>\<open>{# #}\<close>, \<^verbatim>\<open>undefined=Undefined\<close> (an undefined name
  is a value that prints as the empty string), \<^verbatim>\<open>keep_trailing_newline=False\<close>, no
  autoescaping.

  The library is interpreted on the following fragment, with \<open>finalize\<close> as a parameter:
  text, \<^verbatim>\<open>{{ name }}\<close>, \<^verbatim>\<open>{{ name | filter | ... }}\<close> with the three \<^verbatim>\<open>output_*\<close>
  filters, and \<^verbatim>\<open>{% if expr %} ... {% else %} ... {% endif %}\<close>, nested at will. Anything
  else (comments, other statements, operators, literals, attribute access, calls,
  whitespace control) yields \<open>NotModelled\<close>, so nothing is claimed about it.
\<close>

type_synonym 'f scope = "string \<Rightarrow> 'f pyval option"

datatype 'f jval = Undefined | Val "'f pyval"

datatype expr = Var string | Pipe expr string

datatype etok = EName string | EPipe

datatype tok = TData string | TOutput expr | TIf expr | TElse | TEndif

subsection \<open>Lexer\<close>

text \<open>
  The lexer first splits the source into lines and joins them with \<^verbatim>\<open>\n\<close>: every line
  boundary becomes \<^verbatim>\<open>\n\<close> and a line boundary that ends the source is dropped. The
  versions of Jinja that have \<^verbatim>\<open>contextfunction\<close> agree that \<^verbatim>\<open>\n\<close>, \<^verbatim>\<open>\r\<close> and \<^verbatim>\<open>\r\n\<close> are
  line boundaries. Those that split with \<^verbatim>\<open>str.splitlines\<close> have six more below code point
  256, which the later ones leave alone: no statement is made on a source that contains
  one of the six.
\<close>

definition is_linebreak :: "char \<Rightarrow> bool" where
  "is_linebreak c \<longleftrightarrow> c \<in> {CHR 0x0A, CHR 0x0D}"

definition is_other_boundary :: "char \<Rightarrow> bool" where
  "is_other_boundary c \<longleftrightarrow>
     c \<in> {CHR 0x0B, CHR 0x0C, CHR 0x1C, CHR 0x1D, CHR 0x1E, CHR 0x85}"

fun unify_linebreaks :: "string \<Rightarrow> string" where
  "unify_linebreaks [] = []"
| "unify_linebreaks [c] = (if is_linebreak c then [NL] else [c])"
| "unify_linebreaks (c # d # cs) =
     (if c = CHR 0x0D \<and> d = CHR 0x0A then NL # unify_linebreaks cs
      else if is_linebreak c then NL # unify_linebreaks (d # cs)
      else c # unify_linebreaks (d # cs))"

definition normalize_source :: "string \<Rightarrow> string" where
  "normalize_source src =
     (let s = unify_linebreaks src
      in if s \<noteq> [] \<and> last s = NL then butlast s else s)"

definition is_name_start :: "char \<Rightarrow> bool" where
  "is_name_start c \<longleftrightarrow>
     c \<in> set ''abcdefghijklmnopqrstuvwxyzABCDEFGHIJKLMNOPQRSTUVWXYZ_''"

definition is_name_char :: "char \<Rightarrow> bool" where
  "is_name_char c \<longleftrightarrow> is_name_start c \<or> is_digit c"

text \<open>
  The tokens inside \<^verbatim>\<open>{{ ... }}\<close> (\<open>cl\<close> is \<^verbatim>\<open>}\<close>) or \<^verbatim>\<open>{% ... %}\<close> (\<open>cl\<close> is \<^verbatim>\<open>%\<close>), up to
  the closing delimiter, together with the source that follows it. A source that ends
  inside the delimiters is a syntax error.
\<close>

function lex_inside :: "char \<Rightarrow> string \<Rightarrow> pyerror + (etok list \<times> string)" where
  "lex_inside cl [] = Inl TemplateSyntaxError"
| "lex_inside cl (c # cs) =
     (if c = cl \<and> cs \<noteq> [] \<and> hd cs = CHR ''}'' then Inr ([], tl cs)
      else if is_space c then lex_inside cl cs
      else if c = CHR ''|'' then
        (case lex_inside cl cs of
           Inl e \<Rightarrow> Inl e
         | Inr (ts, rest) \<Rightarrow> Inr (EPipe # ts, rest))
      else if is_name_start c then
        (case lex_inside cl (dropWhile is_name_char cs) of
           Inl e \<Rightarrow> Inl e
         | Inr (ts, rest) \<Rightarrow> Inr (EName (c # takeWhile is_name_char cs) # ts, rest))
      else Inl NotModelled)"
  by pat_completeness auto
termination
  by (relation "measure (\<lambda>(cl, s). length s)")
     (auto simp: less_Suc_eq_le length_dropWhile_le)

subsection \<open>Parser\<close>

definition reserved_names :: "string list" where
  \<comment> \<open>words with a meaning of their own in an expression, which the fragment leaves out\<close>
  "reserved_names =
     [''not'', ''and'', ''or'', ''in'', ''is'', ''if'', ''else'', ''elif'', ''endif'',
      ''self'', ''super'', ''loop'', ''caller'', ''varargs'', ''kwargs'']"

fun parse_filters :: "expr \<Rightarrow> etok list \<Rightarrow> pyerror + expr" where
  "parse_filters e [] = Inr e"
| "parse_filters e (EPipe # EName f # ts) =
     (if f \<in> set [''output_int'', ''output_float'', ''output_bool'']
      then parse_filters (Pipe e f) ts else Inl NotModelled)"
| "parse_filters e ts = Inl NotModelled"

fun parse_expr :: "etok list \<Rightarrow> pyerror + expr" where
  "parse_expr [] = Inl TemplateSyntaxError"
| "parse_expr (EName n # ts) =
     (if n \<in> set reserved_names then Inl NotModelled else parse_filters (Var n) ts)"
| "parse_expr ts = Inl NotModelled"

fun parse_statement :: "etok list \<Rightarrow> pyerror + tok" where
  "parse_statement (EName kw # ts) =
     (if kw = ''if'' then (case parse_expr ts of Inl e \<Rightarrow> Inl e | Inr t \<Rightarrow> Inr (TIf t))
      else if kw = ''else'' \<and> ts = [] then Inr TElse
      else if kw = ''endif'' \<and> ts = [] then Inr TEndif
      else Inl NotModelled)"
| "parse_statement ts = Inl NotModelled"

text \<open>
  The root state of the lexer: text up to the next \<^verbatim>\<open>{{\<close>, \<^verbatim>\<open>{%\<close> or \<^verbatim>\<open>{#\<close>, then the
  delimited block, then the rest of the source.
\<close>

definition flush :: "string \<Rightarrow> tok list \<Rightarrow> tok list" where
  "flush data ts = (if data = [] then ts else TData data # ts)"

lemma lex_inside_shorter:
  "lex_inside cl s = Inr (ts, rest) \<Longrightarrow> length rest < length s"
proof (induction cl s arbitrary: ts rest rule: lex_inside.induct)
  case (1 cl)
  then show ?case by simp
next
  case (2 cl c cs)
  have dw: "length (dropWhile is_name_char cs) \<le> length cs"
    by (rule length_dropWhile_le)
  from 2 dw show ?case
    by (fastforce split: if_splits sum.splits prod.splits)
qed

function lex_root :: "string \<Rightarrow> string \<Rightarrow> pyerror + tok list" where
  "lex_root data [] = Inr (flush data [])"
| "lex_root data [c] = Inr (flush (data @ [c]) [])"
| "lex_root data (c # d # cs) =
     (if c = CHR ''{'' \<and> d = CHR ''{'' then
        (case lex_inside (CHR ''}'') cs of
           Inl e \<Rightarrow> Inl e
         | Inr (ts, rest) \<Rightarrow>
             (case parse_expr ts of
                Inl e \<Rightarrow> Inl e
              | Inr x \<Rightarrow>
                  (case lex_root [] rest of
                     Inl e \<Rightarrow> Inl e
                   | Inr toks \<Rightarrow> Inr (flush data (TOutput x # toks)))))
      else if c = CHR ''{'' \<and> d = CHR ''%'' then
        (case lex_inside (CHR ''%'') cs of
           Inl e \<Rightarrow> Inl e
         | Inr (ts, rest) \<Rightarrow>
             (case parse_statement ts of
                Inl e \<Rightarrow> Inl e
              | Inr t \<Rightarrow>
                  (case lex_root [] rest of
                     Inl e \<Rightarrow> Inl e
                   | Inr toks \<Rightarrow> Inr (flush data (t # toks)))))
      else if c = CHR ''{'' \<and> d = CHR ''#'' then Inl NotModelled
      else lex_root (data @ [c]) (d # cs))"
  by pat_completeness auto
termination
  by (relation "measure (\<lambda>(data, s). length s)")
     (auto dest: lex_inside_shorter)

definition lex_source :: "string \<Rightarrow> pyerror + tok list" where
  "lex_source src =
     (if list_ex is_other_boundary src then Inl NotModelled
      else lex_root [] (normalize_source src))"

subsection \<open>Evaluation\<close>

text \<open>
  A name is looked up in the arguments of \<^verbatim>\<open>render\<close> first and in the globals of the
  environment second. \<^verbatim>\<open>GLOBALS\<close> adds \<^verbatim>\<open>omit\<close> (the omit token) and the function
  \<^verbatim>\<open>evaluate_condition\<close> to the functions that Jinja provides; a function value is outside
  the fragment. A name found nowhere is undefined, which is a value and not an error.
  The words \<^verbatim>\<open>true\<close>, \<^verbatim>\<open>false\<close> and \<^verbatim>\<open>none\<close> are constants of the language.
\<close>

definition resolve :: "'f scope \<Rightarrow> string \<Rightarrow> pyerror + 'f jval" where
  "resolve args n =
     (case args n of
        Some v \<Rightarrow> Inr (Val v)
      | None \<Rightarrow>
          if n = ''omit'' then Inr (Val (PStr OMIT_TOKEN))
          else if n \<in> set [''evaluate_condition'', ''range'', ''dict'', ''lipsum'',
                            ''cycler'', ''joiner'', ''namespace'']
          then Inl NotModelled
          else Inr Undefined)"

fun jstr :: "'f float_ops \<Rightarrow> 'f jval \<Rightarrow> string option" where
  "jstr fl Undefined = Some []"
| "jstr fl (Val v) = py_str fl v"

definition apply_filter :: "'f float_ops \<Rightarrow> string \<Rightarrow> 'f jval \<Rightarrow> pyerror + 'f jval" where
  \<comment> \<open>the entries of \<^verbatim>\<open>FILTERS\<close> that take no argument but the value\<close>
  "apply_filter fl f v =
     (case jstr fl v of
        None \<Rightarrow> Inl NotModelled
      | Some s \<Rightarrow>
          if f = ''output_int'' then Inr (Val (PStr (filter_output_int s)))
          else if f = ''output_float'' then Inr (Val (PStr (filter_output_float s)))
          else if f = ''output_bool'' then Inr (Val (PStr (filter_output_bool s)))
          else Inl NotModelled)"

fun eval_expr :: "'f float_ops \<Rightarrow> 'f scope \<Rightarrow> expr \<Rightarrow> pyerror + 'f jval" where
  "eval_expr fl args (Var n) =
     (if n = ''true'' \<or> n = ''True'' then Inr (Val (PBool True))
      else if n = ''false'' \<or> n = ''False'' then Inr (Val (PBool False))
      else if n = ''none'' \<or> n = ''None'' then Inr (Val PNone)
      else resolve args n)"
| "eval_expr fl args (Pipe e f) =
     (case eval_expr fl args e of
        Inl err \<Rightarrow> Inl err
      | Inr v \<Rightarrow> apply_filter fl f v)"

fun truthy :: "'f float_ops \<Rightarrow> 'f jval \<Rightarrow> bool" where
  "truthy fl Undefined = False"
| "truthy fl (Val PNone) = False"
| "truthy fl (Val (PBool b)) = b"
| "truthy fl (Val (PInt i)) = (i \<noteq> 0)"
| "truthy fl (Val (PFloat x)) = float_truthy fl x"
| "truthy fl (Val (PStr s)) = (s \<noteq> [])"
| "truthy fl (Val (PList xs)) = (xs \<noteq> [])"
| "truthy fl (Val (PDict kvs)) = (kvs \<noteq> [])"

text \<open>
  The parser rejects a template whose \<^verbatim>\<open>if\<close> blocks are not balanced before anything
  is rendered. The stack records, for each open \<^verbatim>\<open>if\<close>, whether its \<^verbatim>\<open>else\<close> was seen.
\<close>

fun check_nesting :: "bool list \<Rightarrow> tok list \<Rightarrow> bool" where
  "check_nesting st [] = (st = [])"
| "check_nesting st (TIf e # ts) = check_nesting (False # st) ts"
| "check_nesting st (TElse # ts) =
     (case st of
        [] \<Rightarrow> False
      | seen # st' \<Rightarrow> \<not> seen \<and> check_nesting (True # st') ts)"
| "check_nesting st (TEndif # ts) =
     (case st of
        [] \<Rightarrow> False
      | seen # st' \<Rightarrow> check_nesting st' ts)"
| "check_nesting st (t # ts) = check_nesting st ts"

text \<open>
  Rendering runs through the tokens from left to right. The stack holds, for each open
  \<^verbatim>\<open>if\<close>, whether the branch being read is the selected one; text and expressions are
  produced only where every enclosing branch is selected, and an expression or a test
  that is not reached is not evaluated. The value of \<^verbatim>\<open>{{ expr }}\<close> goes through the
  \<^verbatim>\<open>finalize\<close> hook of the environment and then through \<^verbatim>\<open>str\<close>.
\<close>

fun render_toks ::
  "('f scope \<Rightarrow> 'f jval \<Rightarrow> pyerror + 'f jval) \<Rightarrow> 'f float_ops \<Rightarrow> 'f scope \<Rightarrow>
   bool list \<Rightarrow> tok list \<Rightarrow> pyerror + string" where
  "render_toks fin fl args st [] = Inr []"
| "render_toks fin fl args st (TData s # ts) =
     (case render_toks fin fl args st ts of
        Inl e \<Rightarrow> Inl e
      | Inr out \<Rightarrow> Inr (if list_all id st then s @ out else out))"
| "render_toks fin fl args st (TOutput x # ts) =
     (if list_all id st then
        (case eval_expr fl args x of
           Inl e \<Rightarrow> Inl e
         | Inr v \<Rightarrow>
             (case fin args v of
                Inl e \<Rightarrow> Inl e
              | Inr v' \<Rightarrow>
                  (case jstr fl v' of
                     None \<Rightarrow> Inl NotModelled
                   | Some s \<Rightarrow>
                       (case render_toks fin fl args st ts of
                          Inl e \<Rightarrow> Inl e
                        | Inr out \<Rightarrow> Inr (s @ out)))))
      else render_toks fin fl args st ts)"
| "render_toks fin fl args st (TIf x # ts) =
     (if list_all id st then
        (case eval_expr fl args x of
           Inl e \<Rightarrow> Inl e
         | Inr v \<Rightarrow> render_toks fin fl args (truthy fl v # st) ts)
      else render_toks fin fl args (False # st) ts)"
| "render_toks fin fl args st (TElse # ts) =
     (case st of
        [] \<Rightarrow> Inl TemplateSyntaxError
      | b # st' \<Rightarrow> render_toks fin fl args ((\<not> b) # st') ts)"
| "render_toks fin fl args st (TEndif # ts) =
     (case st of
        [] \<Rightarrow> Inl TemplateSyntaxError
      | b # st' \<Rightarrow> render_toks fin fl args st' ts)"

text \<open>
  \<^verbatim>\<open>env.from_string(src).render(**args)\<close> for an environment with the given \<^verbatim>\<open>finalize\<close>.
  \<^verbatim>\<open>from_string\<close> compiles the source and raises its syntax errors. The call of
  \<^verbatim>\<open>render(self, *args, **kwargs)\<close> then raises \<open>TypeError\<close> when the scope has the key
  \<^verbatim>\<open>self\<close>, which binds the first parameter a second time; every other key is accepted.
  (The nested call that \<open>finalize\<close> makes passes the context as one positional argument;
  its scope is the one of the outer call, which has been accepted.)
\<close>

definition jinja_render ::
  "('f scope \<Rightarrow> 'f jval \<Rightarrow> pyerror + 'f jval) \<Rightarrow> 'f float_ops \<Rightarrow> string \<Rightarrow> 'f scope \<Rightarrow>
   pyerror + string" where
  "jinja_render fin fl src args =
     (case lex_source src of
        Inl e \<Rightarrow> Inl e
      | Inr ts \<Rightarrow>
          if \<not> check_nesting [] ts then Inl TemplateSyntaxError
          else if args ''self'' \<noteq> None then Inl TypeError
          else render_toks fin fl args [] ts)"

section \<open>\<^verbatim>\<open>class Template\<close>\<close>

fun contains :: "string \<Rightarrow> string \<Rightarrow> bool" where
  \<comment> \<open>\<^verbatim>\<open>sub in s\<close>\<close>
  "contains sub [] = (sub = [])"
| "contains sub (c # cs) = (take (length sub) (c # cs) = sub \<or> contains sub cs)"

text \<open>
  \<^verbatim>\<open>Template.finalize\<close>: a string value that seems to contain a template is rendered in
  the same context, through the same environment (the parameter \<open>render\<close>).
\<close>

definition finalize ::
  "(string \<Rightarrow> 'f scope \<Rightarrow> pyerror + string) \<Rightarrow> 'f scope \<Rightarrow> 'f jval \<Rightarrow> pyerror + 'f jval" where
  "finalize render context value =
     (case value of
        Val (PStr s) \<Rightarrow>
          if contains ''{{'' s \<or> contains ''{%'' s then
            (case render s context of
               Inl e \<Rightarrow> Inl e
             | Inr r \<Rightarrow> Inr (Val (PStr r)))
          else Inr value
      | _ \<Rightarrow> Inr value)"

text \<open>
  \<^verbatim>\<open>self._env.from_string(template).render(**args)\<close>. The environment calls \<open>finalize\<close>,
  which calls the environment: the code sets no limit of its own to this recursion, so
  the only limit is the call stack of the interpreter. \<open>depth\<close> is the number of nested
  \<^verbatim>\<open>render\<close> calls that the stack can hold, and the interpreter raises \<open>RecursionError\<close>
  when one more is needed.
\<close>

primrec env_render :: "'f float_ops \<Rightarrow> nat \<Rightarrow> string \<Rightarrow> 'f scope \<Rightarrow> pyerror + string" where
  "env_render fl 0 src args = Inl RecursionError"
| "env_render fl (Suc depth) src args = jinja_render (finalize (env_render fl depth)) fl src args"

text \<open>
  \<^verbatim>\<open>ret[k] = v\<close> on a dict: a key that is present keeps its place, a new key goes last.
\<close>

fun dict_set :: "(string \<times> 'v) list \<Rightarrow> string \<Rightarrow> 'v \<Rightarrow> (string \<times> 'v) list" where
  "dict_set [] k v = [(k, v)]"
| "dict_set ((k', v') # kvs) k v =
     (if k' = k then (k, v) # kvs else (k', v') # dict_set kvs k v)"

text \<open>
  \<^verbatim>\<open>Template.render_template\<close>. The two loops carry \<open>ret\<close>, the result built so far.
\<close>

fun render_template ::
      "'f float_ops \<Rightarrow> nat \<Rightarrow> 'f pyval \<Rightarrow> 'f scope \<Rightarrow> pyerror + 'f pyval"
  and render_dict_loop ::
      "'f float_ops \<Rightarrow> nat \<Rightarrow> 'f scope \<Rightarrow> (string \<times> 'f pyval) list \<Rightarrow>
       (string \<times> 'f pyval) list \<Rightarrow> pyerror + (string \<times> 'f pyval) list"
  and render_list_loop ::
      "'f float_ops \<Rightarrow> nat \<Rightarrow> 'f scope \<Rightarrow> 'f pyval list \<Rightarrow> 'f pyval list \<Rightarrow>
       pyerror + 'f pyval list" where
  "render_template fl depth (PDict items) args =
     (case render_dict_loop fl depth args [] items of
        Inl e \<Rightarrow> Inl e
      | Inr ret \<Rightarrow> Inr (PDict ret))"
| "render_template fl depth (PList items) args =
     (case render_list_loop fl depth args [] items of
        Inl e \<Rightarrow> Inl e
      | Inr ret \<Rightarrow> Inr (PList ret))"
| "render_template fl depth (PStr template) args =
     (case env_render fl depth template args of
        Inl e \<Rightarrow> Inl e
      | Inr out \<Rightarrow> Inr (PStr out))"
| "render_template fl depth PNone args = Inr PNone"
| "render_template fl depth (PBool b) args = Inr (PBool b)"
| "render_template fl depth (PInt i) args = Inr (PInt i)"
| "render_template fl depth (PFloat x) args = Inr (PFloat x)"
| "render_dict_loop fl depth args ret [] = Inr ret"
| "render_dict_loop fl depth args ret ((k, v) # items) =
     (if v = PStr OMIT_TOKEN then render_dict_loop fl depth args ret items
      else
        (case render_template fl depth v args of
           Inl e \<Rightarrow> Inl e
         | Inr r \<Rightarrow>
             (case type_fixup fl r of
                Inl e \<Rightarrow> Inl e
              | Inr x \<Rightarrow> render_dict_loop fl depth args (dict_set ret k x) items)))"
| "render_list_loop fl depth args ret [] = Inr ret"
| "render_list_loop fl depth args ret (v # items) =
     (if v = PStr OMIT_TOKEN then render_list_loop fl depth args ret items
      else
        (case render_template fl depth v args of
           Inl e \<Rightarrow> Inl e
         | Inr r \<Rightarrow>
             (case type_fixup fl r of
                Inl e \<Rightarrow> Inl e
              | Inr x \<Rightarrow> render_list_loop fl depth args (ret @ [x]) items)))"

definition evaluate_condition ::
  "'f float_ops \<Rightarrow> nat \<Rightarrow> string \<Rightarrow> 'f scope \<Rightarrow> pyerror + bool" where
  "evaluate_condition fl depth condition tmp_vars =
     (case env_render fl depth
             (''{% if '' @ condition @ '' %}True{% else %}False{% endif %}'') tmp_vars of
        Inl e \<Rightarrow> Inl e
      | Inr ret \<Rightarrow> if ret = ''True'' then Inr True else Inr False)"

section \<open>The driving loop of \<^verbatim>\<open>__main__.py\<close>\<close>

text \<open>
  An application descriptor is a dict. An output plugin is used through its name and the
  three methods that the loop calls; they belong to \<^verbatim>\<open>OutputPluginBase\<close>, so they are
  the fields of a record here. \<^verbatim>\<open>generate\<close> returns, raises \<^verbatim>\<open>ConfigGenerationError\<close>
  (with the text of the exception) or raises something else.

  What a run does is the list of its events: the lines given to \<^verbatim>\<open>DISPLAY.display\<close> and
  the calls of \<^verbatim>\<open>plugin.generate\<close> with the ordinal passed.
\<close>

type_synonym 'f app = "(string \<times> 'f pyval) list"

datatype gen_outcome = GenOk | GenConfigError string | GenOtherError string

record 'f plugin =
  NAME :: string
  has_field :: "string \<Rightarrow> bool"
  is_needed :: "'f app \<Rightarrow> bool"
  generate :: "'f app \<Rightarrow> nat \<Rightarrow> gen_outcome"

datatype event = Display string | GenerateCall string nat

definition field_valid :: "'f plugin list \<Rightarrow> 'f app \<Rightarrow> string \<Rightarrow> bool" where
  \<comment> \<open>the inner loop of \<^verbatim>\<open>app_validate_fields\<close>\<close>
  "field_valid output_plugins app field =
     list_ex (\<lambda>plugin. has_field plugin field \<and> is_needed plugin app) output_plugins"

definition invalid_field_message :: "string \<Rightarrow> nat \<Rightarrow> string" where
  "invalid_field_message field app_index =
     ''field '' @ [CHR 0x27] @ field @ [CHR 0x27] @ '' in application ''
       @ show_nat (app_index + 1) @ '' is not valid for relevant output plugins''"

text \<open>The outer loop: the text of the \<^verbatim>\<open>DeployConfigError\<close> raised, if one is.\<close>

fun validate_loop :: "'f plugin list \<Rightarrow> 'f app \<Rightarrow> nat \<Rightarrow> string list \<Rightarrow> string option" where
  "validate_loop output_plugins app app_index [] = None"
| "validate_loop output_plugins app app_index (field # remaining) =
     (if field_valid output_plugins app field
      then validate_loop output_plugins app app_index remaining
      else Some (invalid_field_message field app_index))"

definition app_validate_fields :: "'f app \<Rightarrow> nat \<Rightarrow> 'f plugin list \<Rightarrow> event list" where
  "app_validate_fields app app_index output_plugins =
     (case validate_loop output_plugins app app_index (map fst app) of
        None \<Rightarrow> []
      | Some e \<Rightarrow> [Display (''Failed to load deploy config: '' @ e)])"

text \<open>
  The loop of \<^verbatim>\<open>app_render_output\<close>, which sits inside one \<^verbatim>\<open>try\<close>: the calls made and
  how the loop ended.
\<close>

fun generate_loop :: "'f app \<Rightarrow> nat \<Rightarrow> 'f plugin list \<Rightarrow> event list \<times> gen_outcome" where
  "generate_loop app app_index [] = ([], GenOk)"
| "generate_loop app app_index (plugin # plugins) =
     (if is_needed plugin app then
        (case generate plugin app (app_index + 1) of
           GenOk \<Rightarrow>
             (case generate_loop app app_index plugins of
                (evs, r) \<Rightarrow> (GenerateCall (NAME plugin) (app_index + 1) # evs, r))
         | failure \<Rightarrow> ([GenerateCall (NAME plugin) (app_index + 1)], failure))
      else generate_loop app app_index plugins)"

text \<open>
  \<^verbatim>\<open>app_render_output\<close>: the events, and the text of an exception that is not caught.
\<close>

definition app_render_output ::
  "'f app \<Rightarrow> nat \<Rightarrow> 'f plugin list \<Rightarrow> event list \<times> string option" where
  "app_render_output app app_index output_plugins =
     (case generate_loop app app_index output_plugins of
        (evs, GenOk) \<Rightarrow> (evs, None)
      | (evs, GenConfigError e) \<Rightarrow>
          (evs @ [Display (''Failed to generate deploy config: '' @ e)], None)
      | (evs, GenOtherError e) \<Rightarrow> (evs, Some e))"

text \<open>
  The loop that ends \<^verbatim>\<open>main\<close>: \<^verbatim>\<open>for app_idx, app in enumerate(deploy_config)\<close>.
\<close>

fun main_loop :: "'f plugin list \<Rightarrow> nat \<Rightarrow> 'f app list \<Rightarrow> event list \<times> string option" where
  "main_loop output_plugins app_idx [] = ([], None)"
| "main_loop output_plugins app_idx (app # apps) =
     (let evs1 = app_validate_fields app app_idx output_plugins
      in case app_render_output app app_idx output_plugins of
           (evs2, Some e) \<Rightarrow> (evs1 @ evs2, Some e)
         | (evs2, None) \<Rightarrow>
             (case main_loop output_plugins (Suc app_idx) apps of
                (evs3, r) \<Rightarrow> (evs1 @ evs2 @ evs3, r)))"

section \<open>Instances for concrete examples\<close>

text \<open>
  The examples below contain no float and no float marker, so any interpretation of
  floats serves; this one has a single float value and parses nothing.
\<close>

definition example_floats :: "unit float_ops" where
  "example_floats =
     \<lparr>float_parse = (\<lambda>s. None), float_str = (\<lambda>x. ''0.0''), float_truthy = (\<lambda>x. False)\<rparr>"

text \<open>
  The plugin of \<^verbatim>\<open>output/dummy.py\<close>: the fields \<^verbatim>\<open>name\<close> and \<^verbatim>\<open>dummy\<close>, needed by every
  application (its own \<^verbatim>\<open>is_needed\<close> is commented out). The second plugin is the same
  under another name; the third one fails on every application.
\<close>

definition dummy_plugin :: "unit plugin" where
  "dummy_plugin =
     \<lparr>NAME = ''dummy'',
      has_field = (\<lambda>field. field \<in> set [''name'', ''dummy'']),
      is_needed = (\<lambda>app. True),
      generate = (\<lambda>app ordinal. GenOk)\<rparr>"

definition other_plugin :: "unit plugin" where
  "other_plugin = dummy_plugin\<lparr>NAME := ''other''\<rparr>"

definition failing_plugin :: "unit plugin" where
  "failing_plugin = dummy_plugin\<lparr>NAME := ''failing'', generate := (\<lambda>app ordinal. GenConfigError ''boom'')\<rparr>"

section \<open>Vocabulary of the statements\<close>

text \<open>
  The predicates and abbreviations that the properties below are stated with. None of
  them is part of the program, except \<open>render_entry\<close>, which names an expression of it.
\<close>

text \<open>
  A marker of any type, and one step of reading a decimal numeral from the left.
\<close>

definition wrap_marker :: "string \<Rightarrow> string \<Rightarrow> string" where
  "wrap_marker ty s = ''__'' @ ty @ ''__'' @ s @ ''__'' @ ty @ ''__''"

definition dec_step :: "nat \<Rightarrow> char \<Rightarrow> nat" where
  "dec_step a c = 10 * a + digit_val c"

text \<open>
  A name as the lexer reads it, and the names that are looked up in the arguments of
  \<^verbatim>\<open>render\<close> and nowhere else: no constant of the language, no reserved word, no global
  of the environment.
\<close>

fun is_identifier :: "string \<Rightarrow> bool" where
  "is_identifier [] = False"
| "is_identifier (c # cs) = (is_name_start c \<and> list_all is_name_char cs)"

definition is_variable_name :: "string \<Rightarrow> bool" where
  "is_variable_name n \<longleftrightarrow>
     is_identifier n
     \<and> n \<notin> set reserved_names
     \<and> n \<notin> set [''true'', ''True'', ''false'', ''False'', ''none'', ''None'']
     \<and> n \<notin> set [''omit'', ''evaluate_condition'', ''range'', ''dict'', ''lipsum'',
                   ''cycler'', ''joiner'', ''namespace'']"

definition ref :: "string \<Rightarrow> string" where
  \<comment> \<open>the template that refers to one variable\<close>
  "ref n = ''{{ '' @ n @ '' }}''"

definition no_template_syntax :: "string \<Rightarrow> bool" where
  "no_template_syntax s \<longleftrightarrow>
     \<not> contains ''{{'' s \<and> \<not> contains ''{%'' s \<and> \<not> contains ''{#'' s"

definition no_linebreak :: "string \<Rightarrow> bool" where
  \<comment> \<open>no line boundary of either kind\<close>
  "no_linebreak s \<longleftrightarrow> list_all (\<lambda>c. \<not> is_linebreak c \<and> \<not> is_other_boundary c) s"

fun opens :: "string \<Rightarrow> bool" where
  "opens (c # d # cs) =
     (c = CHR ''{'' \<and> (d = CHR ''{'' \<or> d = CHR ''%'' \<or> d = CHR ''#'') \<or> opens (d # cs))"
| "opens s = False"

text \<open>
  A chain \<open>n\<^sub>0, \<dots>, n\<^sub>k\<close> of \<open>k\<close> indirections: each variable holds the reference to the
  next one and the last one holds \<open>v\<close>, a string that \<open>finalize\<close> does not take for a
  template. A cycle: a set of variables each of which holds the reference to one of the
  set.
\<close>

fun is_chain :: "'f scope \<Rightarrow> string list \<Rightarrow> string \<Rightarrow> bool" where
  "is_chain args [] v = False"
| "is_chain args [n] v =
     (is_variable_name n \<and> args n = Some (PStr v)
      \<and> \<not> contains ''{{'' v \<and> \<not> contains ''{%'' v)"
| "is_chain args (n # m # ns) v =
     (is_variable_name n \<and> args n = Some (PStr (ref m)) \<and> is_chain args (m # ns) v)"

definition is_cycle :: "'f scope \<Rightarrow> string set \<Rightarrow> bool" where
  "is_cycle args C \<longleftrightarrow>
     (\<forall>n \<in> C. is_variable_name n \<and> (\<exists>m \<in> C. args n = Some (PStr (ref m))))"

text \<open>
  What both loops of \<open>render_template\<close> store for an entry that is not omitted:
  \<^verbatim>\<open>self.type_fixup(self.render_template(v, args))\<close>.
\<close>

definition render_entry ::
  "'f float_ops \<Rightarrow> nat \<Rightarrow> 'f scope \<Rightarrow> 'f pyval \<Rightarrow> pyerror + 'f pyval" where
  "render_entry fl depth args v =
     (case render_template fl depth v args of
        Inl e \<Rightarrow> Inl e
      | Inr r \<Rightarrow> type_fixup fl r)"


section \<open>Properties of the type markers\<close>

lemma underscore_not_lower [simp]: "\<not> is_lower (CHR ''_'')"
  by (simp add: is_lower_def)

lemma NL_not_underscore [simp]: "NL \<noteq> CHR ''_''" "CHR ''_'' \<noteq> NL"
  by (simp_all add: NL_def)

lemma strip_suffix_append [simp]: "strip_suffix suf (p @ suf) = Some p"
  by (simp add: strip_suffix_def)

lemma marker_match_wrap:
  assumes "ty \<noteq> []" and "\<forall>c \<in> set ty. is_lower c"
  shows "marker_match (wrap_marker ty p) = (if NL \<in> set p then None else Some (ty, p))"
proof -
  have tw: "takeWhile is_lower (ty @ CHR ''_'' # xs) = ty" for xs
    using assms(2) by (simp add: takeWhile_append2)
  have dw: "dropWhile is_lower (ty @ CHR ''_'' # xs) = CHR ''_'' # xs" for xs
    using assms(2) by (simp add: dropWhile_append2)
  have lst: "last (p @ ''__'' @ ty @ ''__'') = CHR ''_''"
    by simp
  have body: "p @ ''__'' @ ty @ ''__'' \<noteq> []" by simp
  show ?thesis
    unfolding marker_match_def wrap_marker_def
    using assms(1) lst
    by (simp add: tw dw Let_def del: last_append last.simps)
qed

lemma filter_output_int_wrap: "filter_output_int s = wrap_marker ''int'' s"
  by (simp add: filter_output_int_def wrap_marker_def)
lemma filter_output_float_wrap: "filter_output_float s = wrap_marker ''float'' s"
  by (simp add: filter_output_float_def wrap_marker_def)
lemma filter_output_bool_wrap: "filter_output_bool s = wrap_marker ''bool'' s"
  by (simp add: filter_output_bool_def wrap_marker_def)

lemma marker_match_int:
  "marker_match (filter_output_int s) = (if NL \<in> set s then None else Some (''int'', s))"
  unfolding filter_output_int_wrap by (rule marker_match_wrap) (simp_all add: is_lower_def)
lemma marker_match_float:
  "marker_match (filter_output_float s) = (if NL \<in> set s then None else Some (''float'', s))"
  unfolding filter_output_float_wrap by (rule marker_match_wrap) (simp_all add: is_lower_def)
lemma marker_match_bool:
  "marker_match (filter_output_bool s) = (if NL \<in> set s then None else Some (''bool'', s))"
  unfolding filter_output_bool_wrap by (rule marker_match_wrap) (simp_all add: is_lower_def)

lemma digit_char_props:
  "d < 10 \<Longrightarrow>
     is_digit (digit_char d) \<and> digit_val (digit_char d) = d \<and> \<not> is_int_space (digit_char d)
     \<and> digit_char d \<noteq> CHR ''-'' \<and> digit_char d \<noteq> CHR ''+''"
proof -
  assume "d < 10"
  then have "d \<in> {0,1,2,3,4,5,6,7,8,9}" by auto
  then show ?thesis
    by (auto simp: digit_char_def is_digit_def digit_val_def is_int_space_def)
qed

lemma digits_val_all_digits:
  "\<forall>c \<in> set ds. is_digit c \<Longrightarrow> digits_val acc ds = Some (foldl dec_step acc ds)"
  by (induction ds arbitrary: acc) (simp_all add: dec_step_def)

lemma show_nat_digits: "\<forall>c \<in> set (show_nat n). is_digit c"
proof (induction n rule: show_nat.induct)
  case (1 n)
  show ?case
  proof (cases "n < 10")
    case True
    then show ?thesis by (subst show_nat.simps) (simp add: digit_char_props)
  next
    case False
    then have "is_digit (digit_char (n mod 10))" by (simp add: digit_char_props)
    with False 1 show ?thesis by (subst show_nat.simps) auto
  qed
qed

lemma show_nat_nonempty: "show_nat n \<noteq> []"
  by (subst show_nat.simps) simp

lemma show_nat_value: "foldl dec_step 0 (show_nat n) = n"
proof (induction n rule: show_nat.induct)
  case (1 n)
  show ?case
  proof (cases "n < 10")
    case True
    then show ?thesis by (subst show_nat.simps) (simp add: dec_step_def digit_char_props)
  next
    case False
    then have "foldl dec_step 0 (show_nat (n div 10)) = n div 10" using 1 by simp
    moreover have "digit_val (digit_char (n mod 10)) = n mod 10" by (simp add: digit_char_props)
    ultimately show ?thesis using False
      by (subst show_nat.simps) (simp add: dec_step_def)
  qed
qed

lemma parse_nat_show_nat: "parse_nat (show_nat n) = Some n"
proof -
  obtain c cs where cs: "show_nat n = c # cs"
    using show_nat_nonempty [of n] by (cases "show_nat n") auto
  have dig: "\<forall>x \<in> set (c # cs). is_digit x"
    using show_nat_digits [of n] cs by simp
  have "foldl dec_step 0 (c # cs) = n" using show_nat_value [of n] cs by simp
  then have "foldl dec_step (digit_val c) cs = n" by (simp add: dec_step_def)
  then show ?thesis using dig cs
    by (simp add: parse_nat_def digits_val_all_digits)
qed

lemma dropWhile_none: "\<forall>x \<in> set xs. \<not> P x \<Longrightarrow> dropWhile P xs = xs"
  by (cases xs) auto

lemma digit_not_space: "is_digit c \<Longrightarrow> \<not> is_int_space c"
  by (auto simp: is_digit_def is_int_space_def)

lemma digit_not_sign: "is_digit c \<Longrightarrow> c \<noteq> CHR ''-'' \<and> c \<noteq> CHR ''+'' \<and> c \<noteq> NL"
  by (auto simp: is_digit_def NL_def)

lemma show_int_chars: "\<forall>c \<in> set (show_int i). \<not> is_int_space c \<and> c \<noteq> NL"
proof -
  have a: "\<not> is_int_space (CHR ''-'')" by (simp add: is_int_space_def)
  have b: "CHR ''-'' \<noteq> NL" by (simp add: NL_def)
  have c: "\<forall>c \<in> set (show_nat n). \<not> is_int_space c \<and> c \<noteq> NL" for n
    using show_nat_digits [of n] digit_not_space digit_not_sign by blast
  show ?thesis using a b c by (simp add: show_int_def)
qed

lemma strip_show_int: "strip (show_int i) = show_int i"
  using show_int_chars [of i] by (simp add: strip_def dropWhile_none)

lemma parse_int_show_int: "parse_int (show_int i) = Some i"
proof (cases "i < 0")
  case True
  then show ?thesis
    by (simp add: parse_int_def show_int_def parse_nat_show_nat)
next
  case False
  obtain c cs where cs: "show_nat (nat i) = c # cs"
    using show_nat_nonempty [of "nat i"] by (cases "show_nat (nat i)") auto
  have "is_digit c" using show_nat_digits [of "nat i"] cs by simp
  then have "c \<noteq> CHR ''-''" "c \<noteq> CHR ''+''" by (simp_all add: digit_not_sign)
  moreover have "parse_nat (c # cs) = Some (nat i)" using parse_nat_show_nat [of "nat i"] cs by simp
  moreover have si: "show_int i = c # cs" using False cs by (simp add: show_int_def)
  ultimately show ?thesis using False
    by (simp add: parse_int_def)
qed

lemma digits_show_int: "filter is_digit (show_int i) = show_nat (nat \<bar>i\<bar>)"
proof -
  have all: "filter is_digit (show_nat n) = show_nat n" for n
    using show_nat_digits [of n] by (simp add: filter_id_conv)
  have "\<not> is_digit (CHR ''-'')" by (simp add: is_digit_def)
  then show ?thesis
    by (cases "i < 0") (simp_all add: show_int_def all abs_if)
qed

lemma py_int_show_int:
  "length (show_nat (nat \<bar>i\<bar>)) \<le> max_str_digits \<Longrightarrow> py_int (show_int i) = Inr i"
  by (simp add: py_int_def strip_show_int digits_show_int parse_int_show_int)

lemma py_int_py_str: "py_str fl (PInt i) = Some s \<Longrightarrow> py_int s = Inr i"
  by (auto simp: py_int_show_int split: if_splits)

lemma py_str_int_no_newline: "py_str fl (PInt i) = Some s \<Longrightarrow> NL \<notin> set s"
  using show_int_chars [of i] by (auto split: if_splits)

lemma type_fixup_idem: "type_fixup fl v = Inr w \<Longrightarrow> type_fixup fl w = Inr w"
proof (cases v)
  case (PStr s)
  assume r: "type_fixup fl v = Inr w"
  show ?thesis
  proof (cases "marker_match s")
    case None
    with r PStr show ?thesis by auto
  next
    case (Some m)
    obtain ty payload where m: "m = (ty, payload)" by (cases m)
    from r PStr Some m show ?thesis
      by (auto split: if_splits option.splits sum.splits)
  qed
qed auto


lemma type_fixup_wrapped:
  assumes "NL \<notin> set p"
  shows "type_fixup fl (PStr (filter_output_int p)) =
           (case py_int p of Inl e \<Rightarrow> Inl e | Inr i \<Rightarrow> Inr (PInt i))"
    and "type_fixup fl (PStr (filter_output_float p)) =
           (case float_parse fl p of None \<Rightarrow> Inl ValueError | Some x \<Rightarrow> Inr (PFloat x))"
    and "type_fixup fl (PStr (filter_output_bool p)) = Inr (PBool (lower p = ''true''))"
  using assms by (simp_all add: marker_match_int marker_match_float marker_match_bool)

lemma type_fixup_native_int:
  "py_str fl (PInt i) = Some s \<Longrightarrow> type_fixup fl (PStr (filter_output_int s)) = Inr (PInt i)"
  using type_fixup_wrapped(1) [OF py_str_int_no_newline, of fl i s fl]
  by (simp add: py_int_py_str)

text \<open>
  Claim C2 holds of the comment in \<open>type_fixup\<close> (the pattern "captures the value in the
  middle") and fails of its pattern: \<^verbatim>\<open>.*\<close> is matched without \<^verbatim>\<open>DOTALL\<close> and stops at a
  newline. The filter \<^verbatim>\<open>output_int\<close> applied to the text \<^verbatim>\<open>5\n\<close>, which \<^verbatim>\<open>int\<close> reads as 5,
  builds a string that \<open>type_fixup\<close> does not recognise and returns as it is; likewise
  for \<^verbatim>\<open>output_bool\<close> and a text of two lines, which is not \<^verbatim>\<open>true\<close>.
\<close>

theorem type_fixup_newline_payload:
  "py_int (''5'' @ [NL]) = Inr 5
   \<and> type_fixup example_floats (PStr (filter_output_int (''5'' @ [NL])))
       = Inr (PStr (''__int__5'' @ [NL] @ ''__int__''))
   \<and> lower (''a'' @ [NL] @ ''b'') \<noteq> ''true''
   \<and> type_fixup example_floats (PStr (filter_output_bool (''a'' @ [NL] @ ''b'')))
       = Inr (PStr (''__bool__a'' @ [NL] @ ''b__bool__''))"
  by code_simp

section \<open>Properties of the driving loop\<close>

lemma validate_loop_first_invalid:
  assumes "\<forall>f \<in> set valid_fields. field_valid ps app f" and "\<not> field_valid ps app g"
  shows "validate_loop ps app i (valid_fields @ g # later_fields) = Some (invalid_field_message g i)"
  using assms by (induction valid_fields) simp_all

lemma generate_loop_append:
  "generate_loop app i ps1 = (evs, GenOk) \<Longrightarrow>
   generate_loop app i (ps1 @ ps) =
     (evs @ fst (generate_loop app i ps), snd (generate_loop app i ps))"
proof (induction ps1 arbitrary: evs)
  case Nil
  then show ?case by simp
next
  case (Cons q qs)
  then show ?case
    by (auto split: if_splits gen_outcome.splits prod.splits)
qed

text \<open>
  Claim C6, as the code has it. When an application has a field that no plugin needing
  the application declares, \<open>app_validate_fields\<close> displays one line, which names the
  first such field (in the order of the descriptor) and the ordinal of the application.
  The loop of \<open>main\<close> then calls \<open>app_render_output\<close> for the same application all the
  same, and goes on to the applications that follow (unless generation raised an
  exception that is not caught).
\<close>

theorem unknown_field_reported_generation_attempted:
  assumes "map fst app = valid_fields @ g # later_fields"
      and "\<forall>f \<in> set valid_fields. field_valid output_plugins app f"
      and "\<not> field_valid output_plugins app g"
  shows "app_validate_fields app app_idx output_plugins =
         [Display (''Failed to load deploy config: '' @ invalid_field_message g app_idx)]
     \<and> invalid_field_message g app_idx =
         ''field '' @ [CHR 0x27] @ g @ [CHR 0x27] @ '' in application ''
           @ show_nat (app_idx + 1) @ '' is not valid for relevant output plugins''
     \<and> main_loop output_plugins app_idx (app # apps) =
         (case app_render_output app app_idx output_plugins of
            (evs, Some e) \<Rightarrow>
              (Display (''Failed to load deploy config: '' @ invalid_field_message g app_idx)
                 # evs, Some e)
          | (evs, None) \<Rightarrow>
              (Display (''Failed to load deploy config: '' @ invalid_field_message g app_idx)
                 # evs @ fst (main_loop output_plugins (Suc app_idx) apps),
               snd (main_loop output_plugins (Suc app_idx) apps)))"
proof -
  have v: "app_validate_fields app app_idx output_plugins =
      [Display (''Failed to load deploy config: '' @ invalid_field_message g app_idx)]"
    using validate_loop_first_invalid [OF assms(2,3), of app_idx later_fields] assms(1)
    by (simp add: app_validate_fields_def)
  have "main_loop output_plugins app_idx (app # apps) =
         (case app_render_output app app_idx output_plugins of
            (evs, Some e) \<Rightarrow>
              (Display (''Failed to load deploy config: '' @ invalid_field_message g app_idx)
                 # evs, Some e)
          | (evs, None) \<Rightarrow>
              (Display (''Failed to load deploy config: '' @ invalid_field_message g app_idx)
                 # evs @ fst (main_loop output_plugins (Suc app_idx) apps),
               snd (main_loop output_plugins (Suc app_idx) apps)))"
    by (simp add: v split: prod.splits option.splits)
  with v show ?thesis by (simp add: invalid_field_message_def)
qed

theorem unknown_field_reported_generation_attempted_witness:
  "main_loop [dummy_plugin] 0
     [[(''name'', PStr ''x''), (''bogus_field'', PInt 1), (''other_bogus'', PInt 2)],
      [(''name'', PStr ''y'')]] =
   ([Display (''Failed to load deploy config: '' @ invalid_field_message ''bogus_field'' 0),
     GenerateCall ''dummy'' 1, GenerateCall ''dummy'' 2], None)"
proof -
  let ?app = "[(''name'', PStr ''x''), (''bogus_field'', PInt 1), (''other_bogus'', PInt 2)] :: unit app"
  let ?apps = "[[(''name'', PStr ''y'')]] :: unit app list"
  have fields: "map fst ?app = [''name''] @ ''bogus_field'' # [''other_bogus'']"
    by simp
  have ok: "\<forall>f \<in> set [''name'']. field_valid [dummy_plugin] ?app f"
    by code_simp
  have inv: "\<not> field_valid [dummy_plugin] ?app ''bogus_field''"
    by code_simp
  have r1: "app_render_output ?app 0 [dummy_plugin] = ([GenerateCall ''dummy'' 1], None)"
    by code_simp
  have r2: "main_loop [dummy_plugin] (Suc 0) ?apps = ([GenerateCall ''dummy'' 2], None)"
    by code_simp
  from unknown_field_reported_generation_attempted [OF fields ok inv, of 0 ?apps]
  have m: "main_loop [dummy_plugin] 0 (?app # ?apps) =
         (case app_render_output ?app 0 [dummy_plugin] of
            (evs, Some e) \<Rightarrow>
              (Display (''Failed to load deploy config: '' @ invalid_field_message ''bogus_field'' 0)
                 # evs, Some e)
          | (evs, None) \<Rightarrow>
              (Display (''Failed to load deploy config: '' @ invalid_field_message ''bogus_field'' 0)
                 # evs @ fst (main_loop [dummy_plugin] (Suc 0) ?apps),
               snd (main_loop [dummy_plugin] (Suc 0) ?apps)))"
    by blast
  show ?thesis
    unfolding m r1 r2 by simp
qed

text \<open>
  Claim C6 as stated fails: the application with the unknown field is generated.
\<close>

theorem unknown_field_generation_not_skipped_counterexample:
  "\<not> field_valid [dummy_plugin] [(''name'', PStr ''x''), (''bogus_field'', PInt 1)] ''bogus_field''
   \<and> main_loop [dummy_plugin] 0
       [[(''name'', PStr ''x''), (''bogus_field'', PInt 1)], [(''name'', PStr ''y'')]] =
     ([Display (''Failed to load deploy config: field '' @ [CHR 0x27] @ ''bogus_field'' @ [CHR 0x27]
          @ '' in application 1 is not valid for relevant output plugins''),
       GenerateCall ''dummy'' 1, GenerateCall ''dummy'' 2], None)"
  by code_simp

text \<open>
  Claim C7, as the code has it. The \<^verbatim>\<open>try\<close> of \<open>app_render_output\<close> encloses the whole
  loop over the plugins. When the plugins before \<open>p\<close> have run without failure and
  \<open>p.generate\<close> raises \<^verbatim>\<open>ConfigGenerationError\<close>, the error is caught and displayed with
  the text of the exception, no plugin after \<open>p\<close> is called for this application, and
  the loop of \<open>main\<close> goes on with the next application.
\<close>

theorem generation_failure_ends_application:
  assumes "generate_loop app app_idx ps1 = (evs, GenOk)"
      and "is_needed p app"
      and "generate p app (app_idx + 1) = GenConfigError e"
  shows "app_render_output app app_idx (ps1 @ p # ps2) =
           (evs @ [GenerateCall (NAME p) (app_idx + 1),
                   Display (''Failed to generate deploy config: '' @ e)], None)
     \<and> main_loop (ps1 @ p # ps2) app_idx (app # apps) =
           (app_validate_fields app app_idx (ps1 @ p # ps2)
              @ evs @ [GenerateCall (NAME p) (app_idx + 1),
                       Display (''Failed to generate deploy config: '' @ e)]
              @ fst (main_loop (ps1 @ p # ps2) (Suc app_idx) apps),
            snd (main_loop (ps1 @ p # ps2) (Suc app_idx) apps))"
proof -
  have "generate_loop app app_idx (p # ps2) = ([GenerateCall (NAME p) (app_idx + 1)], GenConfigError e)"
    using assms(2,3) by simp
  then have "generate_loop app app_idx (ps1 @ p # ps2) =
      (evs @ [GenerateCall (NAME p) (app_idx + 1)], GenConfigError e)"
    using generate_loop_append [OF assms(1), of "p # ps2"] by simp
  then have r: "app_render_output app app_idx (ps1 @ p # ps2) =
           (evs @ [GenerateCall (NAME p) (app_idx + 1),
                   Display (''Failed to generate deploy config: '' @ e)], None)"
    by (simp add: app_render_output_def)
  then show ?thesis
    by (simp add: Let_def split: prod.splits)
qed

theorem generation_failure_ends_application_witness:
  "main_loop [failing_plugin, other_plugin] 0 [[(''name'', PStr ''x'')], [(''name'', PStr ''y'')]] =
     ([GenerateCall ''failing'' 1, Display ''Failed to generate deploy config: boom'',
       GenerateCall ''failing'' 2, Display ''Failed to generate deploy config: boom''], None)"
proof -
  let ?app = "[(''name'', PStr ''x'')] :: unit app"
  let ?apps = "[[(''name'', PStr ''y'')]] :: unit app list"
  have a: "generate_loop ?app 0 ([] :: unit plugin list) = ([], GenOk)"
    by simp
  have b: "is_needed failing_plugin ?app"
    by code_simp
  have c: "generate failing_plugin ?app (0 + 1) = GenConfigError ''boom''"
    by code_simp
  have v: "app_validate_fields ?app 0 ([] @ failing_plugin # [other_plugin]) = []"
    by code_simp
  have n: "main_loop ([] @ failing_plugin # [other_plugin]) (Suc 0) ?apps =
     ([GenerateCall ''failing'' 2, Display ''Failed to generate deploy config: boom''], None)"
    by code_simp
  have nm: "NAME failing_plugin = ''failing''"
    by code_simp
  from generation_failure_ends_application [OF a b c, of "[other_plugin]" ?apps]
  have m: "main_loop ([] @ failing_plugin # [other_plugin]) 0 (?app # ?apps) =
           (app_validate_fields ?app 0 ([] @ failing_plugin # [other_plugin])
              @ [] @ [GenerateCall (NAME failing_plugin) (0 + 1),
                       Display (''Failed to generate deploy config: '' @ ''boom'')]
              @ fst (main_loop ([] @ failing_plugin # [other_plugin]) (Suc 0) ?apps),
            snd (main_loop ([] @ failing_plugin # [other_plugin]) (Suc 0) ?apps))"
    by (rule conjunct2)
  have "main_loop ([] @ failing_plugin # [other_plugin]) 0 (?app # ?apps) =
     ([GenerateCall ''failing'' 1, Display ''Failed to generate deploy config: boom'',
       GenerateCall ''failing'' 2, Display ''Failed to generate deploy config: boom''], None)"
    unfolding m v n nm by simp
  then show ?thesis by (simp only: append_Nil)
qed

text \<open>
  Claim C7 as stated fails: after the failure of the first plugin, the second plugin,
  which needs the application, is not called for it.
\<close>

theorem generation_failure_skips_later_plugins_counterexample:
  "is_needed other_plugin [(''name'', PStr ''x'')]
   \<and> generate failing_plugin [(''name'', PStr ''x'')] 1 = GenConfigError ''boom''
   \<and> main_loop [failing_plugin, other_plugin] 0 [[(''name'', PStr ''x'')]] =
       ([GenerateCall ''failing'' 1, Display ''Failed to generate deploy config: boom''], None)
   \<and> GenerateCall ''other'' 1 \<notin>
       set (fst (main_loop [failing_plugin, other_plugin] 0 [[(''name'', PStr ''x'')]]))"
  by code_simp

section \<open>Properties of the template engine\<close>

subsection \<open>The lexer on text and on references\<close>

lemma opens_iff: "opens s \<longleftrightarrow> \<not> no_template_syntax s"
  by (induction s rule: induct_list012) (auto simp: no_template_syntax_def)

lemma name_start_facts:
  "is_name_start c \<Longrightarrow>
     is_name_char c \<and> \<not> is_space c \<and> \<not> is_linebreak c \<and> \<not> is_other_boundary c
     \<and> c \<noteq> CHR ''|'' \<and> c \<noteq> CHR ''}'' \<and> c \<noteq> CHR ''%'' \<and> c \<noteq> CHR ''{''"
  unfolding is_name_start_def is_name_char_def is_space_def is_linebreak_def
    is_other_boundary_def
  by auto

lemma name_char_facts:
  "is_name_char c \<Longrightarrow> \<not> is_linebreak c \<and> \<not> is_other_boundary c \<and> c \<noteq> CHR ''{''"
  unfolding is_name_start_def is_name_char_def is_digit_def is_linebreak_def
    is_other_boundary_def
  by auto

lemma space_not_name_char [simp]: "\<not> is_name_char (CHR '' '')"
  by (simp add: is_name_char_def is_name_start_def is_digit_def)

lemma space_is_space [simp]: "is_space (CHR '' '')"
  by (simp add: is_space_def)

lemma lex_inside_space:
  "cl \<noteq> CHR '' '' \<Longrightarrow> lex_inside cl (CHR '' '' # s) = lex_inside cl s"
  by simp

lemma lex_inside_close:
  "\<not> is_space cl \<Longrightarrow> lex_inside cl (cl # CHR ''}'' # rest) = Inr ([], rest)"
  by simp

lemma lex_inside_name:
  assumes "is_identifier n" and "\<not> is_name_char r" and "\<not> is_name_start cl"
  shows "lex_inside cl (n @ r # rs) =
           (case lex_inside cl (r # rs) of
              Inl e \<Rightarrow> Inl e
            | Inr (ts, x) \<Rightarrow> Inr (EName n # ts, x))"
proof -
  from assms(1) obtain c cs where n: "n = c # cs" "is_name_start c" "\<forall>x \<in> set cs. is_name_char x"
    by (cases n) (auto simp: list_all_iff)
  have tw: "takeWhile is_name_char (cs @ r # rs) = cs"
    using n(3) assms(2) by (simp add: takeWhile_append2)
  have dw: "dropWhile is_name_char (cs @ r # rs) = r # rs"
    using n(3) assms(2) by (simp add: dropWhile_append2)
  have c: "c \<noteq> cl" "\<not> is_space c" "c \<noteq> CHR ''|''"
    using n(2) assms(3) name_start_facts [of c] by auto
  have "lex_inside cl (c # (cs @ r # rs)) =
          (case lex_inside cl (dropWhile is_name_char (cs @ r # rs)) of
             Inl e \<Rightarrow> Inl e
           | Inr (ts, x) \<Rightarrow> Inr (EName (c # takeWhile is_name_char (cs @ r # rs)) # ts, x))"
    using c n(2) by (subst lex_inside.simps) (simp only: if_False if_True simp_thms)
  then show ?thesis
    unfolding n(1) tw dw by simp
qed

lemma lex_inside_ref_body:
  assumes "is_identifier n"
  shows "lex_inside (CHR ''}'') (n @ CHR '' '' # CHR ''}'' # CHR ''}'' # rest) = Inr ([EName n], rest)"
proof -
  have a: "\<not> is_name_start (CHR ''}'')"
    by (simp add: is_name_start_def)
  have b: "lex_inside (CHR ''}'') (CHR '' '' # CHR ''}'' # CHR ''}'' # rest) = Inr ([], rest)"
    by simp
  show ?thesis
    using lex_inside_name [OF assms space_not_name_char a, of "CHR ''}'' # CHR ''}'' # rest"]
    unfolding b by simp
qed

lemma lex_inside_ref:
  "is_identifier n \<Longrightarrow>
   lex_inside (CHR ''}'') ('' '' @ n @ '' }}'' @ rest) = Inr ([EName n], rest)"
  by (simp add: lex_inside_ref_body)

lemma parse_expr_variable:
  "is_variable_name n \<Longrightarrow> parse_expr [EName n] = Inr (Var n)"
  by (simp add: is_variable_name_def)

lemma lex_root_ref:
  assumes "is_variable_name n"
  shows "lex_root data (ref n @ rest) =
           (case lex_root [] rest of
              Inl e \<Rightarrow> Inl e
            | Inr toks \<Rightarrow> Inr (flush data (TOutput (Var n) # toks)))"
proof -
  have i: "is_identifier n" using assms by (simp add: is_variable_name_def)
  have "lex_root data (CHR ''{'' # CHR ''{'' # ('' '' @ n @ '' }}'' @ rest)) =
           (case lex_root [] rest of
              Inl e \<Rightarrow> Inl e
            | Inr toks \<Rightarrow> Inr (flush data (TOutput (Var n) # toks)))"
    by (subst lex_root.simps)
       (simp add: lex_inside_ref_body [OF i] parse_expr_variable [OF assms]
             del: parse_expr.simps)
  then show ?thesis by (simp add: ref_def)
qed

lemma lex_root_text:
  "\<not> opens s \<Longrightarrow> lex_root data s = Inr (flush (data @ s) [])"
  by (induction s arbitrary: data rule: induct_list012) auto

lemma lex_root_text_prefix:
  "\<not> opens (pre @ take 1 s) \<Longrightarrow> lex_root data (pre @ s) = lex_root (data @ pre) s"
proof (induction pre arbitrary: data)
  case Nil
  then show ?case by simp
next
  case (Cons p ps)
  show ?case
  proof (cases "ps @ s")
    case Nil
    then show ?thesis by (simp add: flush_def)
  next
    case (Cons d ds)
    obtain t where t: "ps @ take 1 s = d # t"
      using Cons by (cases ps; cases s) auto
    have "\<not> opens (p # d # t)"
      using Cons.prems t by simp
    then have no: "\<not> (p = CHR ''{'' \<and> (d = CHR ''{'' \<or> d = CHR ''%'' \<or> d = CHR ''#''))"
      and rest: "\<not> opens (ps @ take 1 s)"
      unfolding t by auto
    have "lex_root data (p # d # ds) = lex_root (data @ [p]) (d # ds)"
      using no by auto
    then show ?thesis
      using Cons.IH [OF rest, of "data @ [p]"] Cons by simp
  qed
qed

lemma unify_linebreaks_id:
  "no_linebreak s \<Longrightarrow> unify_linebreaks s = s"
  by (induction s rule: unify_linebreaks.induct) (auto simp: no_linebreak_def is_linebreak_def)

lemma normalize_source_id:
  assumes "no_linebreak s"
  shows "normalize_source s = s"
proof -
  have nl: "is_linebreak NL" by (simp add: is_linebreak_def NL_def)
  have "last s \<noteq> NL" if "s \<noteq> []"
  proof
    assume "last s = NL"
    then have "NL \<in> set s" using that last_in_set [of s] by simp
    then show False using assms nl by (auto simp: no_linebreak_def list_all_iff)
  qed
  then show ?thesis
    using assms by (auto simp: normalize_source_def unify_linebreaks_id Let_def)
qed

lemma identifier_no_linebreak: "is_identifier n \<Longrightarrow> no_linebreak n"
  by (cases n) (auto simp: no_linebreak_def list_all_iff name_start_facts name_char_facts)

lemma no_linebreak_append [simp]:
  "no_linebreak (a @ b) \<longleftrightarrow> no_linebreak a \<and> no_linebreak b"
  by (simp add: no_linebreak_def)

lemma no_linebreak_ref: "is_identifier n \<Longrightarrow> no_linebreak (ref n)"
  using identifier_no_linebreak [of n]
  by (simp add: ref_def) (simp add: no_linebreak_def is_linebreak_def is_other_boundary_def)

lemma no_linebreak_no_other: "no_linebreak s \<Longrightarrow> \<not> list_ex is_other_boundary s"
  by (auto simp: no_linebreak_def list_all_iff list_ex_iff)

lemma lex_source_no_linebreak: "no_linebreak s \<Longrightarrow> lex_source s = lex_root [] s"
  by (simp add: lex_source_def no_linebreak_no_other normalize_source_id)

subsection \<open>Rendering text and references\<close>

lemma opens_Cons: "opens cs \<Longrightarrow> opens (d # cs)"
  by (cases cs rule: opens.cases) auto

lemma not_opens_NL: "opens (NL # ys) = opens ys"
  by (cases ys rule: opens.cases) (auto simp: NL_def)

lemma unify_linebreaks_head:
  "\<exists>x xs. unify_linebreaks (d # cs) = x # xs \<and> (x = d \<or> x = NL)"
  by (cases cs) auto

lemma unify_linebreaks_opens:
  "\<not> opens s \<Longrightarrow> \<not> opens (unify_linebreaks s)"
proof (induction s rule: unify_linebreaks.induct)
  case 1
  then show ?case by simp
next
  case (2 c)
  then show ?case by simp
next
  case (3 c d cs)
  from "3.prems" have tail: "\<not> opens (d # cs)" and pair:
    "\<not> (c = CHR ''{'' \<and> (d = CHR ''{'' \<or> d = CHR ''%'' \<or> d = CHR ''#''))"
    by auto
  from tail have tail2: "\<not> opens cs" using opens_Cons by blast
  show ?case
  proof (cases "c = CHR 0x0D \<and> d = CHR 0x0A")
    case True
    then show ?thesis using 3 tail2 by (simp add: not_opens_NL)
  next
    case False
    note crlf = this
    show ?thesis
    proof (cases "is_linebreak c")
      case True
      then show ?thesis using "3.IH"(2) crlf tail by (auto simp: not_opens_NL)
    next
      case False
      obtain x xs where x: "unify_linebreaks (d # cs) = x # xs" "x = d \<or> x = NL"
        using unify_linebreaks_head by blast
      have ih: "\<not> opens (x # xs)"
        using "3.IH"(3) crlf False tail x(1) by simp
      have "\<not> (c = CHR ''{'' \<and> (x = CHR ''{'' \<or> x = CHR ''%'' \<or> x = CHR ''#''))"
        using pair x(2) by (auto simp: NL_def)
      then have "\<not> opens (c # x # xs)" using ih by simp
      moreover have "unify_linebreaks (c # d # cs) = c # unify_linebreaks (d # cs)"
        using crlf False by auto
      ultimately show ?thesis using x(1) by simp
    qed
  qed
qed

lemma butlast_opens: "\<not> opens s \<Longrightarrow> \<not> opens (butlast s)"
  by (induction s rule: induct_list012) (auto split: if_splits)

lemma normalize_source_opens: "\<not> opens s \<Longrightarrow> \<not> opens (normalize_source s)"
  by (simp add: normalize_source_def Let_def unify_linebreaks_opens butlast_opens)

lemma check_nesting_flush [simp]: "check_nesting st (flush d ts) = check_nesting st ts"
  by (simp add: flush_def)

lemma render_toks_flush:
  "render_toks fin fl args [] (flush d ts) =
     (case render_toks fin fl args [] ts of Inl e \<Rightarrow> Inl e | Inr out \<Rightarrow> Inr (d @ out))"
  by (auto simp: flush_def split: sum.splits)

lemma jinja_render_text:
  assumes "no_template_syntax T" and "\<not> list_ex is_other_boundary T"
  shows "jinja_render fin fl T args =
           (if args ''self'' = None then Inr (normalize_source T) else Inl TypeError)"
proof -
  have "\<not> opens T"
    using assms by (simp add: opens_iff)
  then have "\<not> opens (normalize_source T)"
    by (rule normalize_source_opens)
  then have "lex_source T = Inr (flush (normalize_source T) [])"
    using assms(2) by (simp add: lex_source_def lex_root_text)
  then show ?thesis
    by (simp add: jinja_render_def render_toks_flush)
qed

lemma check_nesting_skip_output:
  "check_nesting st (pre @ TOutput x # post) = check_nesting st (pre @ post)"
proof (induction pre arbitrary: st)
  case Nil
  then show ?case by simp
next
  case (Cons t pre)
  then show ?case by (cases t) (simp_all split: list.splits)
qed

lemma render_toks_skip_output:
  assumes "eval_expr fl args x = Inr Undefined" and "fin args Undefined = Inr Undefined"
  shows "render_toks fin fl args st (pre @ TOutput x # post) = render_toks fin fl args st (pre @ post)"
proof (induction pre arbitrary: st)
  case Nil
  then show ?case using assms by (simp split: sum.splits)
next
  case (Cons t pre)
  then show ?case by (cases t) (auto split: list.splits sum.splits option.splits)
qed

lemma eval_variable:
  "is_variable_name n \<Longrightarrow>
   eval_expr fl args (Var n) = Inr (case args n of None \<Rightarrow> Undefined | Some v \<Rightarrow> Val v)"
  by (auto simp: is_variable_name_def resolve_def split: option.splits)

lemma jinja_render_ref_in_text:
  assumes n: "is_variable_name n"
    and pre: "no_template_syntax (pre @ ''{'')" "no_linebreak pre"
    and post: "no_template_syntax post" "no_linebreak post"
    and self: "args ''self'' = None"
  shows "jinja_render fin fl (pre @ ref n @ post) args =
           (case fin args (case args n of None \<Rightarrow> Undefined | Some v \<Rightarrow> Val v) of
              Inl e \<Rightarrow> Inl e
            | Inr v' \<Rightarrow>
                (case jstr fl v' of
                   None \<Rightarrow> Inl NotModelled
                 | Some s \<Rightarrow> Inr (pre @ s @ post)))"
proof -
  have i: "is_identifier n" using n by (simp add: is_variable_name_def)
  have "no_linebreak (pre @ ref n @ post)"
    using pre(2) post(2) no_linebreak_ref [OF i] by simp
  then have norm: "lex_source (pre @ ref n @ post) = lex_root [] (pre @ ref n @ post)"
    by (rule lex_source_no_linebreak)
  have "take 1 (ref n @ post) = ''{''" by (simp add: ref_def)
  then have "\<not> opens (pre @ take 1 (ref n @ post))"
    using pre(1) by (simp add: opens_iff)
  then have "lex_root [] (pre @ ref n @ post) = lex_root pre (ref n @ post)"
    using lex_root_text_prefix [of pre "ref n @ post" "[]"] by simp
  moreover have "lex_root [] post = Inr (flush post [])"
    using post(1) by (simp add: opens_iff lex_root_text)
  ultimately have "lex_source (pre @ ref n @ post) = Inr (flush pre (TOutput (Var n) # flush post []))"
    by (simp add: norm lex_root_ref [OF n])
  then show ?thesis
    by (simp add: jinja_render_def render_toks_flush eval_variable [OF n] self del: eval_expr.simps
             split: sum.splits option.splits)
qed

lemma no_template_syntax_brace: "no_template_syntax ''{''"
  by (simp add: no_template_syntax_def)

lemma no_template_syntax_Nil: "no_template_syntax []"
  by (simp add: no_template_syntax_def)

lemma env_render_ref:
  assumes "is_variable_name n" and "args ''self'' = None"
  shows "env_render fl (Suc d) (ref n) args =
           (case finalize (env_render fl d) args (case args n of None \<Rightarrow> Undefined | Some v \<Rightarrow> Val v) of
              Inl e \<Rightarrow> Inl e
            | Inr v' \<Rightarrow> (case jstr fl v' of None \<Rightarrow> Inl NotModelled | Some s \<Rightarrow> Inr s))"
  using jinja_render_ref_in_text [of n "[]" "[]" args "finalize (env_render fl d)" fl] assms
  by (auto simp: no_template_syntax_brace no_template_syntax_Nil no_linebreak_def
           split: sum.splits option.splits)

lemma contains_ref: "contains ''{{'' (ref m)"
  by (simp add: ref_def)

lemma env_render_indirection:
  assumes "is_variable_name n" and "args n = Some (PStr (ref m))" and "args ''self'' = None"
  shows "env_render fl (Suc d) (ref n) args = env_render fl d (ref m) args"
  by (subst env_render_ref [of n args fl d])
     (simp_all add: assms finalize_def contains_ref del: env_render.simps split: sum.splits)

lemma env_render_plain_value:
  assumes "is_variable_name n" and "args n = Some (PStr v)"
    and "\<not> contains ''{{'' v" and "\<not> contains ''{%'' v" and "args ''self'' = None"
  shows "env_render fl (Suc d) (ref n) args = Inr v"
  by (subst env_render_ref [of n args fl d])
     (simp_all add: assms finalize_def del: env_render.simps)

subsection \<open>Text without template syntax\<close>

text \<open>
  Claim C9, as the code has it. Let \<open>T\<close> be a string without \<^verbatim>\<open>{{\<close>, \<^verbatim>\<open>{%\<close> and \<^verbatim>\<open>{#\<close>, and
  \<open>S\<close> a scope that \<^verbatim>\<open>render(**S)\<close> accepts, that is, one without the key \<^verbatim>\<open>self\<close>. When
  \<open>T\<close> contains no line boundary, it renders to itself. When its line boundaries are
  \<^verbatim>\<open>\n\<close>, \<^verbatim>\<open>\r\<close> and \<^verbatim>\<open>\r\n\<close>, it renders to itself with each of them written as \<^verbatim>\<open>\n\<close> and
  without the one that ends it, if one does. A scope with the key \<^verbatim>\<open>self\<close> makes the
  call raise \<open>TypeError\<close>. (The stack must hold the one call of \<^verbatim>\<open>render\<close>.)
\<close>

theorem render_plain_text:
  assumes "no_template_syntax T"
  shows "(S ''self'' = None \<and> no_linebreak T \<longrightarrow>
            render_template fl (Suc depth) (PStr T) S = Inr (PStr T))
     \<and> (S ''self'' = None \<and> \<not> list_ex is_other_boundary T \<longrightarrow>
            render_template fl (Suc depth) (PStr T) S = Inr (PStr (normalize_source T)))
     \<and> (S ''self'' \<noteq> None \<and> \<not> list_ex is_other_boundary T \<longrightarrow>
            render_template fl (Suc depth) (PStr T) S = Inl TypeError)"
  using assms
  by (auto simp: jinja_render_text normalize_source_id no_linebreak_no_other)

theorem render_plain_text_witness:
  "render_template example_floats 1 (PStr ''hello {world} 100%'') Map.empty
     = Inr (PStr ''hello {world} 100%'')
   \<and> render_template example_floats 1 (PStr (''two'' @ [CHR 0x0D, CHR 0x0A] @ ''lines'' @ [NL])) Map.empty
     = Inr (PStr (''two'' @ [NL] @ ''lines''))
   \<and> render_template example_floats 1 (PStr ''hello'') [''self'' \<mapsto> PInt 1]
     = Inl TypeError"
proof -
  have a: "no_template_syntax ''hello {world} 100%''" by code_simp
  have b: "no_linebreak ''hello {world} 100%''" by code_simp
  have c: "no_template_syntax (''two'' @ [CHR 0x0D, CHR 0x0A] @ ''lines'' @ [NL])" by code_simp
  have d: "\<not> list_ex is_other_boundary (''two'' @ [CHR 0x0D, CHR 0x0A] @ ''lines'' @ [NL])"
    by code_simp
  have e: "normalize_source (''two'' @ [CHR 0x0D, CHR 0x0A] @ ''lines'' @ [NL]) = ''two'' @ [NL] @ ''lines''"
    by code_simp
  have f: "no_template_syntax ''hello''" by code_simp
  have g: "\<not> list_ex is_other_boundary ''hello''" by code_simp
  have s: "(Map.empty :: unit scope) ''self'' = None" "[''self'' \<mapsto> (PInt 1 :: unit pyval)] ''self'' \<noteq> None"
    by simp_all
  have "render_template example_floats (Suc 0) (PStr ''hello {world} 100%'') (Map.empty :: unit scope)
     = Inr (PStr ''hello {world} 100%'')"
    using render_plain_text [OF a, of Map.empty example_floats 0] s(1) b by blast
  moreover have "render_template example_floats (Suc 0)
       (PStr (''two'' @ [CHR 0x0D, CHR 0x0A] @ ''lines'' @ [NL])) (Map.empty :: unit scope)
     = Inr (PStr (''two'' @ [NL] @ ''lines''))"
    using render_plain_text [OF c, of Map.empty example_floats 0] s(1) d unfolding e by blast
  moreover have "render_template example_floats (Suc 0) (PStr ''hello'') [''self'' \<mapsto> PInt 1]
     = Inl TypeError"
    using render_plain_text [OF f, of "[''self'' \<mapsto> PInt 1]" example_floats 0] s(2) g by blast
  ultimately show ?thesis by (simp only: One_nat_def)
qed

text \<open>
  Claim C9 as stated fails on a plain string that ends with a newline.
\<close>

theorem render_plain_text_trailing_newline_counterexample:
  "no_template_syntax (''abc'' @ [NL])
   \<and> render_template example_floats 1 (PStr (''abc'' @ [NL])) Map.empty = Inr (PStr ''abc'')
   \<and> ''abc'' \<noteq> ''abc'' @ [NL]"
  by code_simp

subsection \<open>Undefined variables\<close>

text \<open>
  Claim C5, as the code has it. The environment is built with Jinja's default
  \<^verbatim>\<open>Undefined\<close>. Let \<open>n\<close> be a variable that the scope does not have (and the scope be one
  that \<^verbatim>\<open>render\<close> accepts). In every template string \<open>T\<close>, wherever it stands, the
  reference \<^verbatim>\<open>{{ n }}\<close> raises nothing and contributes nothing: \<open>T\<close> renders exactly as its
  tokens without the reference do. In particular a reference between two texts renders
  to the two texts.
\<close>

theorem undefined_variable_renders_empty:
  assumes "is_variable_name n" and "S n = None" and "S ''self'' = None"
  shows "(lex_source T = Inr (pre @ TOutput (Var n) # post) \<longrightarrow>
            render_template fl (Suc depth) (PStr T) S =
              (if check_nesting [] (pre @ post)
               then (case render_toks (finalize (env_render fl depth)) fl S [] (pre @ post) of
                       Inl e \<Rightarrow> Inl e
                     | Inr out \<Rightarrow> Inr (PStr out))
               else Inl TemplateSyntaxError))
     \<and> (no_template_syntax (a @ ''{'') \<and> no_linebreak a \<and> no_template_syntax b \<and> no_linebreak b
          \<longrightarrow> render_template fl (Suc depth) (PStr (a @ ref n @ b)) S = Inr (PStr (a @ b)))"
proof -
  have ev: "eval_expr fl S (Var n) = Inr Undefined"
    using eval_variable [OF assms(1), of fl S] assms(2) by simp
  have fin: "finalize (env_render fl depth) S Undefined = Inr Undefined"
    by (simp add: finalize_def)
  have general: "render_template fl (Suc depth) (PStr T) S =
              (if check_nesting [] (pre @ post)
               then (case render_toks (finalize (env_render fl depth)) fl S [] (pre @ post) of
                       Inl e \<Rightarrow> Inl e
                     | Inr out \<Rightarrow> Inr (PStr out))
               else Inl TemplateSyntaxError)"
    if "lex_source T = Inr (pre @ TOutput (Var n) # post)"
    using that assms(3)
    by (simp add: jinja_render_def check_nesting_skip_output
          render_toks_skip_output [of fl S "Var n" "finalize (env_render fl depth)", OF ev fin]
          del: eval_expr.simps)
  have between: "render_template fl (Suc depth) (PStr (a @ ref n @ b)) S = Inr (PStr (a @ b))"
    if "no_template_syntax (a @ ''{'')" "no_linebreak a" "no_template_syntax b" "no_linebreak b"
    using jinja_render_ref_in_text [of n a b S "finalize (env_render fl depth)" fl] assms that
    by (simp add: finalize_def)
  from general between show ?thesis by blast
qed

theorem undefined_variable_renders_empty_witness:
  "render_template example_floats 1 (PStr ''api-{{ MISSING }}-v1'') Map.empty
     = Inr (PStr ''api--v1'')
   \<and> render_template example_floats 1
       (PStr ''{% if ON %}a{{ MISSING }}b{% else %}c{% endif %}'') [''ON'' \<mapsto> PBool True]
     = Inr (PStr ''ab'')"
proof -
  let ?S = "[''ON'' \<mapsto> PBool True] :: unit scope"
  have n: "is_variable_name ''MISSING''" by code_simp
  have e: "(Map.empty :: unit scope) ''MISSING'' = None" "(Map.empty :: unit scope) ''self'' = None"
    by simp_all
  have s: "?S ''MISSING'' = None" "?S ''self'' = None"
    by simp_all
  have c: "no_template_syntax (''api-'' @ ''{'')" "no_linebreak ''api-''"
    "no_template_syntax ''-v1''" "no_linebreak ''-v1''"
    by code_simp+
  have l: "lex_source ''{% if ON %}a{{ MISSING }}b{% else %}c{% endif %}'' =
      Inr ([TIf (Var ''ON''), TData ''a''] @ TOutput (Var ''MISSING'')
             # [TData ''b'', TElse, TData ''c'', TEndif])"
    by code_simp
  have r: "(if check_nesting [] ([TIf (Var ''ON''), TData ''a''] @ [TData ''b'', TElse, TData ''c'', TEndif])
            then (case render_toks (finalize (env_render example_floats 0)) example_floats ?S []
                         ([TIf (Var ''ON''), TData ''a''] @ [TData ''b'', TElse, TData ''c'', TEndif]) of
                    Inl e \<Rightarrow> Inl e
                  | Inr out \<Rightarrow> Inr (PStr out))
            else Inl TemplateSyntaxError) = Inr (PStr ''ab'' :: unit pyval)"
    by code_simp
  have "render_template example_floats (Suc 0) (PStr (''api-'' @ ref ''MISSING'' @ ''-v1'')) (Map.empty :: unit scope)
     = Inr (PStr (''api-'' @ ''-v1''))"
    using undefined_variable_renders_empty
      [of "''MISSING''" Map.empty "[]" "[]" "[]" example_floats 0 "''api-''" "''-v1''"] n e c
    by blast
  moreover have "render_template example_floats (Suc 0)
       (PStr ''{% if ON %}a{{ MISSING }}b{% else %}c{% endif %}'') ?S = Inr (PStr ''ab'')"
    using undefined_variable_renders_empty
      [of "''MISSING''" ?S "''{% if ON %}a{{ MISSING }}b{% else %}c{% endif %}''"
          "[TIf (Var ''ON''), TData ''a'']" "[TData ''b'', TElse, TData ''c'', TEndif]"
          example_floats 0 "[]" "[]"] n s l
    unfolding r by blast
  ultimately show ?thesis by (simp add: ref_def del: render_template.simps)
qed

text \<open>
  Claim C5 as stated fails: the template below refers to a variable that the empty scope
  does not have, and rendering returns a string.
\<close>

theorem undefined_variable_counterexample:
  "render_template example_floats 1 (PStr ''{{ MISSING }}'') Map.empty = Inr (PStr [])"
  by code_simp

subsection \<open>Variables that refer to variables\<close>

lemma chain_resolves:
  "is_chain args ns v \<Longrightarrow> args ''self'' = None \<Longrightarrow> length ns \<le> depth \<Longrightarrow>
   env_render fl depth (ref (hd ns)) args = Inr v"
proof (induction args ns v arbitrary: depth rule: is_chain.induct)
  case (1 args v)
  then show ?case by simp
next
  case (2 args n v)
  then obtain d where "depth = Suc d" by (cases depth) auto
  with 2 show ?case
    using env_render_plain_value [of n args v fl d] by simp
next
  case (3 args n m ns v)
  then obtain d where d: "depth = Suc d" by (cases depth) auto
  with 3 have "env_render fl d (ref (hd (m # ns))) args = Inr v" by simp
  with 3 d show ?case
    using env_render_indirection [of n args m fl d] by simp
qed

lemma chain_too_deep:
  "is_chain args ns v \<Longrightarrow> args ''self'' = None \<Longrightarrow> depth < length ns \<Longrightarrow>
   env_render fl depth (ref (hd ns)) args = Inl RecursionError"
proof (induction args ns v arbitrary: depth rule: is_chain.induct)
  case (1 args v)
  then show ?case by simp
next
  case (2 args n v)
  then show ?case by simp
next
  case (3 args n m ns v)
  show ?case
  proof (cases depth)
    case 0
    then show ?thesis by simp
  next
    case (Suc d)
    with 3 have "env_render fl d (ref (hd (m # ns))) args = Inl RecursionError" by simp
    with 3 Suc show ?thesis
      using env_render_indirection [of n args m fl d] by simp
  qed
qed

lemma cycle_never_resolves:
  "is_cycle args C \<Longrightarrow> args ''self'' = None \<Longrightarrow> n \<in> C \<Longrightarrow>
   env_render fl depth (ref n) args = Inl RecursionError"
proof (induction depth arbitrary: n)
  case 0
  then show ?case by simp
next
  case (Suc d)
  then obtain m where m: "m \<in> C" "args n = Some (PStr (ref m))" and n: "is_variable_name n"
    by (auto simp: is_cycle_def)
  have "env_render fl d (ref m) args = Inl RecursionError"
    using Suc.IH [OF Suc.prems(1,2) m(1)] .
  then show ?case
    using env_render_indirection [of n args m fl d] n m(2) Suc.prems(2) by simp
qed

text \<open>
  Claim C1, as the code has it. \<open>finalize\<close> has no depth limit of its own. In a scope
  that \<^verbatim>\<open>render\<close> accepts (one without the key \<^verbatim>\<open>self\<close>), a chain of \<open>k\<close> indirections
  resolves fully, for every \<open>k\<close>, when the call stack holds \<open>k + 1\<close> nested calls of
  \<^verbatim>\<open>render\<close>, and ends with the interpreter's \<open>RecursionError\<close> when it does not. On a
  cycle of references no stack is deep enough: at every depth rendering ends with
  \<open>RecursionError\<close>.
\<close>

theorem finalize_recursion_limited_by_stack_only:
  assumes "args ''self'' = None"
  shows "(is_chain args ns v \<longrightarrow>
      (\<forall>depth \<ge> length ns. render_template fl depth (PStr (ref (hd ns))) args = Inr (PStr v))
    \<and> (\<forall>depth < length ns. render_template fl depth (PStr (ref (hd ns))) args = Inl RecursionError))
   \<and> (is_cycle args C \<longrightarrow>
      (\<forall>n \<in> C. \<forall>depth. render_template fl depth (PStr (ref n)) args = Inl RecursionError))"
  using assms by (simp add: chain_resolves chain_too_deep cycle_never_resolves)

theorem finalize_recursion_limited_by_stack_only_witness:
  "render_template example_floats 3 (PStr ''{{ A }}'')
       [''A'' \<mapsto> PStr ''{{ B }}'', ''B'' \<mapsto> PStr ''{{ C }}'', ''C'' \<mapsto> PStr ''done'']
     = Inr (PStr ''done'')
   \<and> render_template example_floats 2 (PStr ''{{ A }}'')
       [''A'' \<mapsto> PStr ''{{ B }}'', ''B'' \<mapsto> PStr ''{{ C }}'', ''C'' \<mapsto> PStr ''done'']
     = Inl RecursionError
   \<and> render_template example_floats 1000 (PStr ''{{ X }}'')
       [''X'' \<mapsto> PStr ''{{ Y }}'', ''Y'' \<mapsto> PStr ''{{ X }}'']
     = Inl RecursionError"
proof -
  let ?chain = "[''A'' \<mapsto> PStr ''{{ B }}'', ''B'' \<mapsto> PStr ''{{ C }}'', ''C'' \<mapsto> PStr ''done'']
                 :: unit scope"
  let ?loop = "[''X'' \<mapsto> PStr ''{{ Y }}'', ''Y'' \<mapsto> PStr ''{{ X }}''] :: unit scope"
  have names: "is_variable_name ''A''" "is_variable_name ''B''" "is_variable_name ''C''"
    "is_variable_name ''X''" "is_variable_name ''Y''"
    by code_simp+
  have plain: "\<not> contains ''{{'' ''done''" "\<not> contains ''{%'' ''done''"
    by code_simp+
  have self: "?chain ''self'' = None" "?loop ''self'' = None"
    by simp_all
  have ch: "is_chain ?chain [''A'', ''B'', ''C''] ''done''"
    using names plain by (simp add: ref_def)
  have cy: "is_cycle ?loop {''X'', ''Y''}"
    using names by (simp add: is_cycle_def ref_def)
  have refs: "ref ''A'' = ''{{ A }}''" "ref ''X'' = ''{{ X }}''"
    by (simp_all add: ref_def)
  have "render_template example_floats 3 (PStr (ref (hd [''A'', ''B'', ''C''])))  ?chain = Inr (PStr ''done'')"
    using finalize_recursion_limited_by_stack_only
      [of ?chain "[''A'', ''B'', ''C'']" "''done''" example_floats "{}"] ch self(1)
    by (simp del: render_template.simps)
  moreover have "render_template example_floats 2 (PStr (ref (hd [''A'', ''B'', ''C''])))  ?chain = Inl RecursionError"
    using finalize_recursion_limited_by_stack_only
      [of ?chain "[''A'', ''B'', ''C'']" "''done''" example_floats "{}"] ch self(1)
    by (simp del: render_template.simps)
  moreover have "render_template example_floats 1000 (PStr (ref ''X'')) ?loop = Inl RecursionError"
    using finalize_recursion_limited_by_stack_only
      [of ?loop "[]" "[]" example_floats "{''X'', ''Y''}"] cy self(2)
    by (simp del: render_template.simps)
  ultimately show ?thesis
    by (simp only: refs list.sel)
qed

text \<open>
  Claim C1 as stated fails: on a self-referential variable the recursion is stopped by
  nothing but the call stack, here after fifty nested calls, and the error is the
  interpreter's.
\<close>

theorem finalize_recursion_counterexample:
  "is_cycle [''X'' \<mapsto> (PStr ''{{ X }}'' :: unit pyval)] {''X''}
   \<and> render_template example_floats 50 (PStr ''{{ X }}'') [''X'' \<mapsto> PStr ''{{ X }}'']
       = Inl RecursionError"
proof -
  have "is_variable_name ''X''" by code_simp
  then have "is_cycle [''X'' \<mapsto> (PStr ''{{ X }}'' :: unit pyval)] {''X''}"
    by (simp add: is_cycle_def ref_def)
  moreover have "render_template example_floats 50 (PStr ''{{ X }}'') [''X'' \<mapsto> PStr ''{{ X }}'']
       = Inl RecursionError"
    by code_simp
  ultimately show ?thesis by simp
qed

subsection \<open>Conditions\<close>

lemma lex_inside_if:
  assumes "is_identifier n"
  shows "lex_inside (CHR ''%'')
           (CHR '' '' # CHR ''i'' # CHR ''f'' # CHR '' '' # n @ CHR '' '' # CHR ''%'' # CHR ''}'' # rest)
         = Inr ([EName ''if'', EName n], rest)"
proof -
  have pct: "\<not> is_name_start (CHR ''%'')"
    by (simp add: is_name_start_def)
  have kw: "is_identifier ''if''"
    by (simp add: is_name_start_def is_name_char_def)
  have s3: "lex_inside (CHR ''%'') (CHR '' '' # CHR ''%'' # CHR ''}'' # rest) = Inr ([], rest)"
    by simp
  have s2: "lex_inside (CHR ''%'') (n @ CHR '' '' # CHR ''%'' # CHR ''}'' # rest) = Inr ([EName n], rest)"
    using lex_inside_name [OF assms space_not_name_char pct, of "CHR ''%'' # CHR ''}'' # rest"]
    unfolding s3 by simp
  have sp: "lex_inside (CHR ''%'') (CHR '' '' # s) = lex_inside (CHR ''%'') s" for s
    by simp
  have s1: "lex_inside (CHR ''%'') (''if'' @ CHR '' '' # (n @ CHR '' '' # CHR ''%'' # CHR ''}'' # rest))
      = Inr ([EName ''if'', EName n], rest)"
    using lex_inside_name [OF kw space_not_name_char pct,
        of "n @ CHR '' '' # CHR ''%'' # CHR ''}'' # rest"]
    unfolding sp s2 by (simp only: sum.case prod.case)
  have "lex_inside (CHR ''%'') (CHR '' '' # (''if'' @ CHR '' '' # (n @ CHR '' '' # CHR ''%'' # CHR ''}'' # rest)))
      = Inr ([EName ''if'', EName n], rest)"
    unfolding sp by (rule s1)
  then show ?thesis by (simp only: append.simps)
qed

lemma condition_tail:
  "lex_root [] ''True{% else %}False{% endif %}'' =
     Inr [TData ''True'', TElse, TData ''False'', TEndif]"
  by code_simp

lemma lex_source_condition:
  assumes "is_variable_name n"
  shows "lex_source (''{% if '' @ n @ '' %}True{% else %}False{% endif %}'')
           = Inr [TIf (Var n), TData ''True'', TElse, TData ''False'', TEndif]"
proof -
  have i: "is_identifier n" using assms by (simp add: is_variable_name_def)
  have "no_linebreak (''{% if '' @ n @ '' %}True{% else %}False{% endif %}'')"
    using identifier_no_linebreak [OF i]
    by (simp add: no_linebreak_def is_linebreak_def is_other_boundary_def)
  then have norm: "lex_source (''{% if '' @ n @ '' %}True{% else %}False{% endif %}'')
      = lex_root [] (''{% if '' @ n @ '' %}True{% else %}False{% endif %}'')"
    by (rule lex_source_no_linebreak)
  have st: "parse_statement [EName ''if'', EName n] = Inr (TIf (Var n))"
    by (simp add: parse_expr_variable [OF assms] del: parse_expr.simps)
  have "lex_root [] (CHR ''{'' # CHR ''%'' #
          (CHR '' '' # CHR ''i'' # CHR ''f'' # CHR '' '' # n @ CHR '' '' # CHR ''%'' # CHR ''}''
             # ''True{% else %}False{% endif %}''))
        = Inr [TIf (Var n), TData ''True'', TElse, TData ''False'', TEndif]"
    by (subst lex_root.simps)
       (simp only: lex_inside_if [OF i] st condition_tail sum.case prod.case flush_def, simp)
  then show ?thesis
    unfolding norm by (simp only: append.simps)
qed

lemma env_render_condition:
  assumes "is_variable_name n"
  shows "env_render fl (Suc d) (''{% if '' @ n @ '' %}True{% else %}False{% endif %}'') args =
           (if args ''self'' = None
            then Inr (if truthy fl (case args n of None \<Rightarrow> Undefined | Some v \<Rightarrow> Val v)
                      then ''True'' else ''False'')
            else Inl TypeError)"
proof -
  have "jinja_render fin fl (''{% if '' @ n @ '' %}True{% else %}False{% endif %}'') args =
          (if args ''self'' = None
           then Inr (if truthy fl (case args n of None \<Rightarrow> Undefined | Some v \<Rightarrow> Val v)
                     then ''True'' else ''False'')
           else Inl TypeError)" for fin :: "'a scope \<Rightarrow> 'a jval \<Rightarrow> pyerror + 'a jval"
    unfolding jinja_render_def lex_source_condition [OF assms]
    by (simp add: eval_variable [OF assms] del: eval_expr.simps)
  then show ?thesis
    by (simp only: env_render.simps)
qed

text \<open>
  Claim C4, as the code has it. The expression is rendered inside
  \<^verbatim>\<open>{% if ... %}True{% else %}False{% endif %}\<close>. For a condition that is a variable, in a
  scope that \<^verbatim>\<open>render\<close> accepts (one without the key \<^verbatim>\<open>self\<close>), the result is the truth
  value of the variable, false when it is undefined; in a scope with the key \<^verbatim>\<open>self\<close> the
  call ends with the \<open>TypeError\<close> of \<^verbatim>\<open>render\<close>. For every condition: whatever text the
  rendering returns, the result is the boolean "the text is \<^verbatim>\<open>True\<close>", so every other text
  is \<open>False\<close>, and the only failures are those of the rendering itself.
\<close>

theorem evaluate_condition_result:
  "(is_variable_name n \<and> vars ''self'' = None \<longrightarrow>
      evaluate_condition fl (Suc depth) n vars =
        Inr (truthy fl (case vars n of None \<Rightarrow> Undefined | Some v \<Rightarrow> Val v)))
   \<and> (is_variable_name n \<and> vars ''self'' \<noteq> None \<longrightarrow>
      evaluate_condition fl (Suc depth) n vars = Inl TypeError)
   \<and> (env_render fl depth (''{% if '' @ c @ '' %}True{% else %}False{% endif %}'') vars = Inr ret
        \<longrightarrow> evaluate_condition fl depth c vars = Inr (ret = ''True''))
   \<and> (env_render fl depth (''{% if '' @ c @ '' %}True{% else %}False{% endif %}'') vars = Inl e
        \<longrightarrow> evaluate_condition fl depth c vars = Inl e)"
proof -
  have "evaluate_condition fl (Suc depth) n vars =
          (if vars ''self'' = None
           then Inr (truthy fl (case vars n of None \<Rightarrow> Undefined | Some v \<Rightarrow> Val v))
           else Inl TypeError)"
    if "is_variable_name n"
    unfolding evaluate_condition_def env_render_condition [OF that] by simp
  then show ?thesis
    by (simp add: evaluate_condition_def)
qed

theorem evaluate_condition_result_witness:
  "evaluate_condition example_floats 1 ''enabled'' [''enabled'' \<mapsto> PStr ''yes''] = Inr True
   \<and> evaluate_condition example_floats 1 ''enabled'' [''self'' \<mapsto> PInt 1] = Inl TypeError
   \<and> evaluate_condition example_floats 1 ''enabled'' Map.empty = Inr False
   \<and> evaluate_condition example_floats 1 [] Map.empty = Inl TemplateSyntaxError"
proof -
  have n: "is_variable_name ''enabled''" by code_simp
  have r: "env_render example_floats 1 (''{% if '' @ ''enabled'' @ '' %}True{% else %}False{% endif %}'')
             (Map.empty :: unit scope) = Inr ''False''"
    by code_simp
  have f: "env_render example_floats 1 (''{% if '' @ [] @ '' %}True{% else %}False{% endif %}'')
             (Map.empty :: unit scope) = Inl TemplateSyntaxError"
    by code_simp
  have "evaluate_condition example_floats (Suc 0) ''enabled'' [''enabled'' \<mapsto> PStr ''yes''] = Inr True"
    using evaluate_condition_result [of "''enabled''" "[''enabled'' \<mapsto> PStr ''yes'']" example_floats 0] n
    by simp
  moreover have "evaluate_condition example_floats (Suc 0) ''enabled'' [''self'' \<mapsto> PInt 1]
      = Inl TypeError"
    using evaluate_condition_result [of "''enabled''" "[''self'' \<mapsto> PInt 1]" example_floats 0] n
    by simp
  moreover have "evaluate_condition example_floats 1 ''enabled'' (Map.empty :: unit scope) = Inr False"
    using evaluate_condition_result [of "''enabled''" Map.empty example_floats 1 "''enabled''" "''False''"] r
    by simp
  moreover have "evaluate_condition example_floats 1 [] (Map.empty :: unit scope) = Inl TemplateSyntaxError"
    using evaluate_condition_result [of "''enabled''" Map.empty example_floats 1 "[]" "''False''" TemplateSyntaxError] f
    by simp
  ultimately show ?thesis by simp
qed

text \<open>
  Claim C4 as stated fails: the condition below closes the \<^verbatim>\<open>if\<close> of the wrapper and
  opens another one, the rendered text is neither \<^verbatim>\<open>True\<close> nor \<^verbatim>\<open>False\<close>, and the function
  returns \<open>False\<close> instead of failing.
\<close>

theorem evaluate_condition_counterexample:
  "env_render example_floats 1
       (''{% if '' @ ''X %}yes{% endif %}{% if X'' @ '' %}True{% else %}False{% endif %}'')
       [''X'' \<mapsto> PStr ''a''] = Inr ''yesTrue''
   \<and> evaluate_condition example_floats 1 ''X %}yes{% endif %}{% if X'' [''X'' \<mapsto> PStr ''a'']
       = Inr False"
  by code_simp

subsection \<open>Containers: the omit token and the type markers\<close>

lemma render_list_loop_iff:
  "render_list_loop fl depth args ret items = Inr out \<longleftrightarrow>
     (\<exists>ys. out = ret @ ys
        \<and> list_all2 (\<lambda>v y. render_entry fl depth args v = Inr y)
             (filter (\<lambda>v. v \<noteq> PStr OMIT_TOKEN) items) ys)"
proof (induction items arbitrary: ret)
  case Nil
  then show ?case by auto
next
  case (Cons v items)
  show ?case
  proof (cases "v = PStr OMIT_TOKEN")
    case True
    then show ?thesis using Cons.IH [of ret] by simp
  next
    case False
    show ?thesis
    proof (cases "render_entry fl depth args v")
      case (Inl e)
      then show ?thesis using False
        by (auto simp: render_entry_def list_all2_Cons1 split: sum.splits)
    next
      case (Inr x)
      then have "render_list_loop fl depth args ret (v # items)
          = render_list_loop fl depth args (ret @ [x]) items"
        using False by (auto simp: render_entry_def split: sum.splits)
      then show ?thesis
        using Cons.IH [of "ret @ [x]"] Inr False
        by (auto simp: list_all2_Cons1)
    qed
  qed
qed

lemma dict_set_fresh:
  "k \<notin> set (map fst ret) \<Longrightarrow> dict_set ret k x = ret @ [(k, x)]"
  by (induction ret) auto

lemma render_dict_loop_iff:
  "distinct (map fst ret @ map fst items) \<Longrightarrow>
   render_dict_loop fl depth args ret items = Inr out \<longleftrightarrow>
     (\<exists>ys. out = ret @ ys
        \<and> list_all2 (\<lambda>(k, v) (k', y). k' = k \<and> render_entry fl depth args v = Inr y)
             (filter (\<lambda>(k, v). v \<noteq> PStr OMIT_TOKEN) items) ys)"
proof (induction items arbitrary: ret)
  case Nil
  then show ?case by auto
next
  case (Cons kv items)
  obtain k v where kv: "kv = (k, v)" by (cases kv)
  from Cons.prems kv have d1: "distinct (map fst ret @ map fst items)"
    and fresh: "k \<notin> set (map fst ret)"
    by auto
  show ?case
  proof (cases "v = PStr OMIT_TOKEN")
    case True
    then show ?thesis using Cons.IH [OF d1] kv by simp
  next
    case False
    show ?thesis
    proof (cases "render_entry fl depth args v")
      case (Inl e)
      then show ?thesis using False kv
        by (auto simp: render_entry_def list_all2_Cons1 split: sum.splits)
    next
      case (Inr x)
      have d2: "distinct (map fst (ret @ [(k, x)]) @ map fst items)"
        using Cons.prems kv by auto
      have "render_dict_loop fl depth args ret (kv # items)
          = render_dict_loop fl depth args (ret @ [(k, x)]) items"
        using False Inr kv dict_set_fresh [OF fresh]
        by (auto simp: render_entry_def split: sum.splits)
      then show ?thesis
        using Cons.IH [OF d2] Inr False kv
        by (auto simp: list_all2_Cons1)
    qed
  qed
qed

text \<open>
  Claim C8. A sequence renders to a sequence exactly when every entry that is not the
  omit token renders (and passes type fixup), and the result then holds the rendered
  entries that are not the omit token, one for one and in their order; the same holds
  for a mapping (whose keys are distinct), with the keys kept.
\<close>

theorem omitted_entries_absent_order_kept:
  "(render_template fl depth (PList xs) args = Inr r \<longleftrightarrow>
      (\<exists>ys. r = PList ys
         \<and> list_all2 (\<lambda>v y. render_entry fl depth args v = Inr y)
              (filter (\<lambda>v. v \<noteq> PStr OMIT_TOKEN) xs) ys))
   \<and> (distinct (map fst kvs) \<longrightarrow>
        (render_template fl depth (PDict kvs) args = Inr r \<longleftrightarrow>
          (\<exists>out. r = PDict out
             \<and> list_all2 (\<lambda>(k, v) (k', y). k' = k \<and> render_entry fl depth args v = Inr y)
                  (filter (\<lambda>(k, v). v \<noteq> PStr OMIT_TOKEN) kvs) out)))"
proof -
  have l: "render_template fl depth (PList xs) args = Inr r \<longleftrightarrow>
      (\<exists>ys. r = PList ys
         \<and> list_all2 (\<lambda>v y. render_entry fl depth args v = Inr y)
              (filter (\<lambda>v. v \<noteq> PStr OMIT_TOKEN) xs) ys)"
    (is "?L \<longleftrightarrow> ?R")
  proof
    assume ?L
    then obtain out where "render_list_loop fl depth args [] xs = Inr out" "r = PList out"
      by (auto split: sum.splits)
    then show ?R
      using render_list_loop_iff [of fl depth args "[]" xs out] by auto
  next
    assume ?R
    then obtain ys where ys: "r = PList ys"
      "list_all2 (\<lambda>v y. render_entry fl depth args v = Inr y)
         (filter (\<lambda>v. v \<noteq> PStr OMIT_TOKEN) xs) ys"
      by blast
    then have "render_list_loop fl depth args [] xs = Inr ys"
      using render_list_loop_iff [of fl depth args "[]" xs ys] by auto
    then show ?L using ys(1) by simp
  qed
  have d: "render_template fl depth (PDict kvs) args = Inr r \<longleftrightarrow>
          (\<exists>out. r = PDict out
             \<and> list_all2 (\<lambda>(k, v) (k', y). k' = k \<and> render_entry fl depth args v = Inr y)
                  (filter (\<lambda>(k, v). v \<noteq> PStr OMIT_TOKEN) kvs) out)"
    (is "?L \<longleftrightarrow> ?R")
    if dist: "distinct (map fst kvs)"
  proof
    have dist': "distinct (map fst [] @ map fst kvs)" using dist by simp
    assume ?L
    then obtain out where "render_dict_loop fl depth args [] kvs = Inr out" "r = PDict out"
      by (auto split: sum.splits)
    then show ?R
      using render_dict_loop_iff [OF dist', of fl depth args out] by auto
  next
    have dist': "distinct (map fst [] @ map fst kvs)" using dist by simp
    assume ?R
    then obtain out where out: "r = PDict out"
      "list_all2 (\<lambda>(k, v) (k', y). k' = k \<and> render_entry fl depth args v = Inr y)
         (filter (\<lambda>(k, v). v \<noteq> PStr OMIT_TOKEN) kvs) out"
      by blast
    then have "render_dict_loop fl depth args [] kvs = Inr out"
      using render_dict_loop_iff [OF dist', of fl depth args out] by auto
    then show ?L using out(1) by simp
  qed
  from l d show ?thesis by blast
qed

theorem omitted_entries_absent_order_kept_witness:
  "render_template example_floats 1
       (PList [PStr ''a'', PStr OMIT_TOKEN, PInt 3, PStr OMIT_TOKEN, PStr ''{{ X }}''])
       [''X'' \<mapsto> PStr ''x'']
     = Inr (PList [PStr ''a'', PInt 3, PStr ''x''])
   \<and> render_template example_floats 1
       (PDict [(''k1'', PStr OMIT_TOKEN), (''k2'', PStr ''{{ X }}''), (''k3'', PBool True)])
       [''X'' \<mapsto> PStr ''x'']
     = Inr (PDict [(''k2'', PStr ''x''), (''k3'', PBool True)])"
proof -
  let ?args = "[''X'' \<mapsto> PStr ''x''] :: unit scope"
  have e: "render_entry example_floats 1 ?args (PStr ''a'') = Inr (PStr ''a'')"
    "render_entry example_floats 1 ?args (PInt 3) = Inr (PInt 3)"
    "render_entry example_floats 1 ?args (PStr ''{{ X }}'') = Inr (PStr ''x'')"
    "render_entry example_floats 1 ?args (PBool True) = Inr (PBool True)"
    by code_simp+
  have o: "PStr ''a'' \<noteq> (PStr OMIT_TOKEN :: unit pyval)"
    "PStr ''{{ X }}'' \<noteq> (PStr OMIT_TOKEN :: unit pyval)"
    by (simp_all add: OMIT_TOKEN_def)
  have "render_template example_floats 1
       (PList [PStr ''a'', PStr OMIT_TOKEN, PInt 3, PStr OMIT_TOKEN, PStr ''{{ X }}'']) ?args
     = Inr (PList [PStr ''a'', PInt 3, PStr ''x''])"
    using omitted_entries_absent_order_kept
      [of example_floats 1 "[PStr ''a'', PStr OMIT_TOKEN, PInt 3, PStr OMIT_TOKEN, PStr ''{{ X }}'']"
          ?args "PList [PStr ''a'', PInt 3, PStr ''x'']" "[]", THEN conjunct1] e o
    by (simp del: render_template.simps)
  moreover have "render_template example_floats 1
       (PDict [(''k1'', PStr OMIT_TOKEN), (''k2'', PStr ''{{ X }}''), (''k3'', PBool True)]) ?args
     = Inr (PDict [(''k2'', PStr ''x''), (''k3'', PBool True)])"
    using omitted_entries_absent_order_kept
      [of example_floats 1 "[]" ?args "PDict [(''k2'', PStr ''x''), (''k3'', PBool True)]"
          "[(''k1'', PStr OMIT_TOKEN), (''k2'', PStr ''{{ X }}''), (''k3'', PBool True)]",
       THEN conjunct2] e o
    by (simp del: render_template.simps)
  ultimately show ?thesis by simp
qed

lemma render_list_loop_append:
  "list_all2 (\<lambda>v y. render_entry fl depth args v = Inr y)
     (filter (\<lambda>v. v \<noteq> PStr OMIT_TOKEN) xs) ys \<Longrightarrow>
   render_list_loop fl depth args ret (xs @ rest) = render_list_loop fl depth args (ret @ ys) rest"
proof (induction xs arbitrary: ret ys)
  case Nil
  then show ?case by simp
next
  case (Cons v xs)
  show ?case
  proof (cases "v = PStr OMIT_TOKEN")
    case True
    then show ?thesis using Cons by simp
  next
    case False
    with Cons.prems obtain y ys' where ys: "ys = y # ys'"
      "render_entry fl depth args v = Inr y"
      "list_all2 (\<lambda>v y. render_entry fl depth args v = Inr y)
         (filter (\<lambda>v. v \<noteq> PStr OMIT_TOKEN) xs) ys'"
      by (auto simp: list_all2_Cons1)
    have "render_list_loop fl depth args ret ((v # xs) @ rest)
        = render_list_loop fl depth args (ret @ [y]) (xs @ rest)"
      using False ys(2) by (auto simp: render_entry_def split: sum.splits)
    then show ?thesis
      using Cons.IH [OF ys(3), of "ret @ [y]"] ys(1) by simp
  qed
qed

lemma render_dict_loop_append:
  "distinct (map fst ret @ map fst kvs) \<Longrightarrow>
   list_all2 (\<lambda>(k, v) (k', y). k' = k \<and> render_entry fl depth args v = Inr y)
     (filter (\<lambda>(k, v). v \<noteq> PStr OMIT_TOKEN) kvs) out \<Longrightarrow>
   render_dict_loop fl depth args ret (kvs @ rest) = render_dict_loop fl depth args (ret @ out) rest"
proof (induction kvs arbitrary: ret out)
  case Nil
  then show ?case by simp
next
  case (Cons kv kvs)
  obtain k v where kv: "kv = (k, v)" by (cases kv)
  from Cons.prems(1) kv have d1: "distinct (map fst ret @ map fst kvs)"
    and fresh: "k \<notin> set (map fst ret)"
    by auto
  show ?case
  proof (cases "v = PStr OMIT_TOKEN")
    case True
    then show ?thesis using Cons.IH [OF d1] Cons.prems(2) kv by simp
  next
    case False
    with Cons.prems(2) kv obtain y out' where out: "out = (k, y) # out'"
      "render_entry fl depth args v = Inr y"
      "list_all2 (\<lambda>(k, v) (k', y). k' = k \<and> render_entry fl depth args v = Inr y)
         (filter (\<lambda>(k, v). v \<noteq> PStr OMIT_TOKEN) kvs) out'"
      by (auto simp: list_all2_Cons1)
    have d2: "distinct (map fst (ret @ [(k, y)]) @ map fst kvs)"
      using Cons.prems(1) kv by auto
    have "render_dict_loop fl depth args ret ((kv # kvs) @ rest)
        = render_dict_loop fl depth args (ret @ [(k, y)]) (kvs @ rest)"
      using False out(2) kv dict_set_fresh [OF fresh]
      by (auto simp: render_entry_def split: sum.splits)
    then show ?thesis
      using Cons.IH [OF d2 out(3)] out(1) by simp
  qed
qed

lemma rendered_keys:
  "list_all2 (\<lambda>(k, v) (k', y). k' = k \<and> P v y) kvs out \<Longrightarrow> map fst out = map fst kvs"
  by (induction rule: list_all2_induct) auto

lemma lex_omit: "lex_source ''{{ omit }}'' = Inr [TOutput (Var ''omit'')]"
  by code_simp

lemma omit_token_plain:
  "\<not> contains ''{{'' OMIT_TOKEN" "\<not> contains ''{%'' OMIT_TOKEN" "marker_match OMIT_TOKEN = None"
  by code_simp+

lemma render_entry_omit:
  assumes "args ''omit'' = None" and "args ''self'' = None"
  shows "render_entry fl (Suc depth) args (PStr ''{{ omit }}'') = Inr (PStr OMIT_TOKEN)"
proof -
  have "eval_expr fl args (Var ''omit'') = Inr (Val (PStr OMIT_TOKEN))"
    using assms(1) by (simp add: resolve_def)
  then have "env_render fl (Suc depth) ''{{ omit }}'' args = Inr OMIT_TOKEN"
    using assms(2)
    by (simp add: jinja_render_def lex_omit finalize_def omit_token_plain del: eval_expr.simps)
  then show ?thesis
    by (simp add: render_entry_def omit_token_plain del: env_render.simps)
qed

lemma omit_reference_is_no_token: "PStr ''{{ omit }}'' \<noteq> PStr OMIT_TOKEN"
  by (simp add: OMIT_TOKEN_def)

lemma render_list_around:
  assumes "list_all2 (\<lambda>v y. render_entry fl depth args v = Inr y)
             (filter (\<lambda>v. v \<noteq> PStr OMIT_TOKEN) xs) ys"
    and "list_all2 (\<lambda>v y. render_entry fl depth args v = Inr y)
             (filter (\<lambda>v. v \<noteq> PStr OMIT_TOKEN) zs) ws"
  shows "render_template fl depth (PList (xs @ PStr OMIT_TOKEN # zs)) args = Inr (PList (ys @ ws))"
    and "v \<noteq> PStr OMIT_TOKEN \<Longrightarrow> render_entry fl depth args v = Inr y \<Longrightarrow>
         render_template fl depth (PList (xs @ v # zs)) args = Inr (PList (ys @ y # ws))"
    and "v \<noteq> PStr OMIT_TOKEN \<Longrightarrow> render_entry fl depth args v = Inl e \<Longrightarrow>
         render_template fl depth (PList (xs @ v # zs)) args = Inl e"
proof -
  have tail: "render_list_loop fl depth args ret zs = Inr (ret @ ws)" for ret
    using render_list_loop_append [OF assms(2), of ret "[]"] by simp
  show "render_template fl depth (PList (xs @ PStr OMIT_TOKEN # zs)) args = Inr (PList (ys @ ws))"
    using render_list_loop_append [OF assms(1), of "[]" "PStr OMIT_TOKEN # zs"] tail [of ys]
    by simp
  show "render_template fl depth (PList (xs @ v # zs)) args = Inr (PList (ys @ y # ws))"
    if "v \<noteq> PStr OMIT_TOKEN" "render_entry fl depth args v = Inr y"
  proof -
    have "render_list_loop fl depth args ys (v # zs) = render_list_loop fl depth args (ys @ [y]) zs"
      using that by (auto simp: render_entry_def split: sum.splits)
    then show ?thesis
      using render_list_loop_append [OF assms(1), of "[]" "v # zs"] tail [of "ys @ [y]"]
      by simp
  qed
  show "render_template fl depth (PList (xs @ v # zs)) args = Inl e"
    if "v \<noteq> PStr OMIT_TOKEN" "render_entry fl depth args v = Inl e"
  proof -
    have "render_list_loop fl depth args ys (v # zs) = Inl e"
      using that by (auto simp: render_entry_def split: sum.splits)
    then show ?thesis
      using render_list_loop_append [OF assms(1), of "[]" "v # zs"] by simp
  qed
qed

lemma render_dict_around:
  assumes dist: "distinct (map fst kvs @ k # map fst kvs')"
    and "list_all2 (\<lambda>(k, v) (k', y). k' = k \<and> render_entry fl depth args v = Inr y)
             (filter (\<lambda>(k, v). v \<noteq> PStr OMIT_TOKEN) kvs) out"
    and "list_all2 (\<lambda>(k, v) (k', y). k' = k \<and> render_entry fl depth args v = Inr y)
             (filter (\<lambda>(k, v). v \<noteq> PStr OMIT_TOKEN) kvs') out'"
  shows "render_template fl depth (PDict (kvs @ (k, PStr OMIT_TOKEN) # kvs')) args
           = Inr (PDict (out @ out'))"
    and "v \<noteq> PStr OMIT_TOKEN \<Longrightarrow> render_entry fl depth args v = Inr y \<Longrightarrow>
         render_template fl depth (PDict (kvs @ (k, v) # kvs')) args
           = Inr (PDict (out @ (k, y) # out'))"
    and "v \<noteq> PStr OMIT_TOKEN \<Longrightarrow> render_entry fl depth args v = Inl e \<Longrightarrow>
         render_template fl depth (PDict (kvs @ (k, v) # kvs')) args = Inl e"
proof -
  have keys: "set (map fst out) \<subseteq> set (map fst kvs)"
    using rendered_keys [OF assms(2)] by auto
  have d0: "distinct (map fst [] @ map fst kvs)"
    using dist by simp
  have dk: "distinct (map fst out)"
    using rendered_keys [OF assms(2)] dist by (simp add: distinct_map_filter)
  have fresh: "k \<notin> set (map fst out)"
    using keys dist by auto
  have "set (map fst kvs) \<inter> set (map fst kvs') = {}"
    using dist by auto
  then have disj: "set (map fst out) \<inter> set (map fst kvs') = {}"
    using keys by blast
  have tl: "distinct (map fst kvs')" "k \<notin> set (map fst kvs')"
    using dist by auto
  have d1: "distinct (map fst out @ map fst kvs')"
    using dk disj tl(1) by simp
  have d2: "distinct (map fst (out @ [(k, y)]) @ map fst kvs')" for y
    using dk disj tl fresh by simp
  have head: "render_dict_loop fl depth args [] (kvs @ rest) = render_dict_loop fl depth args out rest"
    for rest
    using render_dict_loop_append [OF d0 assms(2), of rest] by simp
  show "render_template fl depth (PDict (kvs @ (k, PStr OMIT_TOKEN) # kvs')) args
           = Inr (PDict (out @ out'))"
    using head [of "(k, PStr OMIT_TOKEN) # kvs'"] render_dict_loop_append [OF d1 assms(3), of "[]"]
    by simp
  show "render_template fl depth (PDict (kvs @ (k, v) # kvs')) args
           = Inr (PDict (out @ (k, y) # out'))"
    if "v \<noteq> PStr OMIT_TOKEN" "render_entry fl depth args v = Inr y"
  proof -
    have "render_dict_loop fl depth args out ((k, v) # kvs')
        = render_dict_loop fl depth args (out @ [(k, y)]) kvs'"
      using that dict_set_fresh [OF fresh] by (auto simp: render_entry_def split: sum.splits)
    then show ?thesis
      using head [of "(k, v) # kvs'"] render_dict_loop_append [OF d2 assms(3), of y "[]"]
      by simp
  qed
  show "render_template fl depth (PDict (kvs @ (k, v) # kvs')) args = Inl e"
    if "v \<noteq> PStr OMIT_TOKEN" "render_entry fl depth args v = Inl e"
  proof -
    have "render_dict_loop fl depth args out ((k, v) # kvs') = Inl e"
      using that by (auto simp: render_entry_def split: sum.splits)
    then show ?thesis
      using head [of "(k, v) # kvs'"] by simp
  qed
qed

text \<open>
  Claim C10. The test for the omit token reads the entry as it is before rendering. Take
  a sequence whose other entries render (to \<open>ys\<close> before and \<open>ws\<close> after the entry in
  question). An entry equal to the token is dropped: the result is \<open>ys @ ws\<close>. An entry
  \<open>v\<close> that is not the token is kept, whatever it renders to: the result is
  \<open>ys @ y # ws\<close> for the rendered entry \<open>y\<close>, also when \<open>y\<close> is the token, and the error
  of the entry when it has one. \<^verbatim>\<open>{{ omit }}\<close> is an entry that is not the token and
  renders to it (in a scope that \<^verbatim>\<open>render\<close> accepts and that does not bind \<^verbatim>\<open>omit\<close>
  itself): the token is then in the returned sequence, at the place of the entry. The
  same holds for a mapping, whose keys are distinct, with the key kept.
\<close>

theorem omission_decided_before_rendering:
  assumes "list_all2 (\<lambda>v y. render_entry fl depth args v = Inr y)
             (filter (\<lambda>v. v \<noteq> PStr OMIT_TOKEN) xs) ys"
    and "list_all2 (\<lambda>v y. render_entry fl depth args v = Inr y)
             (filter (\<lambda>v. v \<noteq> PStr OMIT_TOKEN) zs) ws"
    and "distinct (map fst kvs @ k # map fst kvs')"
    and "list_all2 (\<lambda>(k, v) (k', y). k' = k \<and> render_entry fl depth args v = Inr y)
             (filter (\<lambda>(k, v). v \<noteq> PStr OMIT_TOKEN) kvs) out"
    and "list_all2 (\<lambda>(k, v) (k', y). k' = k \<and> render_entry fl depth args v = Inr y)
             (filter (\<lambda>(k, v). v \<noteq> PStr OMIT_TOKEN) kvs') out'"
  shows
   "render_template fl depth (PList (xs @ PStr OMIT_TOKEN # zs)) args = Inr (PList (ys @ ws))
    \<and> render_template fl depth (PDict (kvs @ (k, PStr OMIT_TOKEN) # kvs')) args
        = Inr (PDict (out @ out'))
    \<and> (v \<noteq> PStr OMIT_TOKEN \<and> render_entry fl depth args v = Inr y \<longrightarrow>
          render_template fl depth (PList (xs @ v # zs)) args = Inr (PList (ys @ y # ws))
        \<and> render_template fl depth (PDict (kvs @ (k, v) # kvs')) args
            = Inr (PDict (out @ (k, y) # out')))
    \<and> (v \<noteq> PStr OMIT_TOKEN \<and> render_entry fl depth args v = Inl e \<longrightarrow>
          render_template fl depth (PList (xs @ v # zs)) args = Inl e
        \<and> render_template fl depth (PDict (kvs @ (k, v) # kvs')) args = Inl e)
    \<and> (0 < depth \<and> args ''omit'' = None \<and> args ''self'' = None \<longrightarrow>
          render_template fl depth (PList (xs @ PStr ''{{ omit }}'' # zs)) args
            = Inr (PList (ys @ PStr OMIT_TOKEN # ws))
        \<and> render_template fl depth (PDict (kvs @ (k, PStr ''{{ omit }}'') # kvs')) args
            = Inr (PDict (out @ (k, PStr OMIT_TOKEN) # out')))"
proof -
  note l = render_list_around [OF assms(1,2)]
  note d = render_dict_around [OF assms(3,4,5)]
  have om: "render_entry fl depth args (PStr ''{{ omit }}'') = Inr (PStr OMIT_TOKEN)"
    if "0 < depth" "args ''omit'' = None" "args ''self'' = None"
  proof -
    from that(1) obtain d' where "depth = Suc d'" by (cases depth) auto
    then show ?thesis using render_entry_omit [OF that(2,3), of fl d'] by simp
  qed
  show ?thesis
    using l(1) d(1) l(2) [of v y] d(2) [of v y] l(3) [of v e] d(3) [of v e]
      l(2) [OF omit_reference_is_no_token om] d(2) [OF omit_reference_is_no_token om]
    by blast
qed

theorem omission_decided_before_rendering_witness:
  "render_template example_floats 1
       (PList [PStr ''a'', PStr OMIT_TOKEN, PInt 3]) Map.empty
     = Inr (PList [PStr ''a'', PInt 3])
   \<and> render_template example_floats 1
       (PList [PStr ''a'', PStr ''{{ omit }}'', PInt 3]) Map.empty
     = Inr (PList [PStr ''a'', PStr OMIT_TOKEN, PInt 3])
   \<and> render_template example_floats 1
       (PDict [(''k1'', PStr ''a''), (''k2'', PStr OMIT_TOKEN), (''k3'', PInt 3)]) Map.empty
     = Inr (PDict [(''k1'', PStr ''a''), (''k3'', PInt 3)])
   \<and> render_template example_floats 1
       (PDict [(''k1'', PStr ''a''), (''k2'', PStr ''{{ omit }}''), (''k3'', PInt 3)]) Map.empty
     = Inr (PDict [(''k1'', PStr ''a''), (''k2'', PStr OMIT_TOKEN), (''k3'', PInt 3)])
   \<and> render_template example_floats 1
       (PList [PStr ''a'', PStr ''__int__x__int__'', PInt 3]) Map.empty
     = Inl ValueError"
proof -
  let ?e = "Map.empty :: unit scope"
  have e: "render_entry example_floats 1 ?e (PStr ''a'') = Inr (PStr ''a'')"
    "render_entry example_floats 1 ?e (PInt 3) = Inr (PInt 3)"
    "render_entry example_floats 1 ?e (PStr ''{{ omit }}'') = Inr (PStr OMIT_TOKEN)"
    "render_entry example_floats 1 ?e (PStr ''__int__x__int__'') = Inl ValueError"
    by code_simp+
  have o: "PStr ''a'' \<noteq> (PStr OMIT_TOKEN :: unit pyval)"
    "PStr ''{{ omit }}'' \<noteq> (PStr OMIT_TOKEN :: unit pyval)"
    "PStr ''__int__x__int__'' \<noteq> (PStr OMIT_TOKEN :: unit pyval)"
    by (simp_all add: OMIT_TOKEN_def)
  have h: "list_all2 (\<lambda>v y. render_entry example_floats 1 ?e v = Inr y)
             (filter (\<lambda>v. v \<noteq> PStr OMIT_TOKEN) [PStr ''a'']) [PStr ''a'']"
    "list_all2 (\<lambda>v y. render_entry example_floats 1 ?e v = Inr y)
             (filter (\<lambda>v. v \<noteq> PStr OMIT_TOKEN) [PInt 3]) [PInt 3]"
    "distinct (map fst [(''k1'', PStr ''a'' :: unit pyval)] @ ''k2''
               # map fst [(''k3'', PInt 3 :: unit pyval)])"
    "list_all2 (\<lambda>(k, v) (k', y). k' = k \<and> render_entry example_floats 1 ?e v = Inr y)
             (filter (\<lambda>(k, v). v \<noteq> PStr OMIT_TOKEN) [(''k1'', PStr ''a'')]) [(''k1'', PStr ''a'')]"
    "list_all2 (\<lambda>(k, v) (k', y). k' = k \<and> render_entry example_floats 1 ?e v = Inr y)
             (filter (\<lambda>(k, v). v \<noteq> PStr OMIT_TOKEN) [(''k3'', PInt 3)]) [(''k3'', PInt 3)]"
    using e o by simp_all
  note t = omission_decided_before_rendering [OF h]
  have "render_template example_floats 1 (PList ([PStr ''a''] @ PStr OMIT_TOKEN # [PInt 3])) ?e
          = Inr (PList ([PStr ''a''] @ [PInt 3]))"
    "render_template example_floats 1
         (PDict ([(''k1'', PStr ''a'')] @ (''k2'', PStr OMIT_TOKEN) # [(''k3'', PInt 3)])) ?e
          = Inr (PDict ([(''k1'', PStr ''a'')] @ [(''k3'', PInt 3)]))"
    "render_template example_floats 1 (PList ([PStr ''a''] @ PStr ''{{ omit }}'' # [PInt 3])) ?e
          = Inr (PList ([PStr ''a''] @ PStr OMIT_TOKEN # [PInt 3]))"
    "render_template example_floats 1
         (PDict ([(''k1'', PStr ''a'')] @ (''k2'', PStr ''{{ omit }}'') # [(''k3'', PInt 3)])) ?e
          = Inr (PDict ([(''k1'', PStr ''a'')] @ (''k2'', PStr OMIT_TOKEN) # [(''k3'', PInt 3)]))"
    "render_template example_floats 1
         (PList ([PStr ''a''] @ PStr ''__int__x__int__'' # [PInt 3])) ?e = Inl ValueError"
    using t [of "PStr ''{{ omit }}''" "PStr OMIT_TOKEN" ValueError]
      t [of "PStr ''__int__x__int__''" "PStr OMIT_TOKEN" ValueError] e o
    by (simp_all del: render_template.simps)
  then show ?thesis
    by (simp only: append.simps)
qed







end
